theory Spec2Isabelle
  imports Complex_Main "HOL-Library.Sublist"
begin

section \<open>Data model of \<open>core/Path.js\<close>\<close>

text \<open>
  JavaScript numbers are modelled as real numbers: coordinates, distances and force
  fractions are finite. The sums, products and interpolations of the forces are taken
  exactly. Two computations are not: the quotient of the curvature angle, the one place
  where the source leaves the finite numbers, is modelled with its IEEE special cases
  written out (see \<open>curvatureAngle\<close>); and the midpoint of two nodes, on which edge
  splitting turns, takes the rounding of the host's double arithmetic as a parameter
  (see \<open>getMidpointNode\<close>). \<open>Node.distance\<close> is not among the sources; what is proved
  about edge splitting and pruning uses no property of it.

  A node object has the fields \<open>x\<close>, \<open>y\<close>, \<open>nextPosition\<close> (the pair of
  \<open>nextPosition.x\<close> and \<open>nextPosition.y\<close>), \<open>isFixed\<close>, \<open>minDistance\<close>,
  \<open>maxDistance\<close> and \<open>repulsionRadius\<close>. The array \<open>this.nodes\<close> is a list of node
  values; an operation that mutates \<open>this.nodes[index]\<close> in place replaces the element
  at that index, an operation that splices the array changes the list.
\<close>

record node =
  x :: real
  y :: real
  nextPosition :: "real \<times> real"
  isFixed :: bool
  minDistance :: real
  maxDistance :: real
  repulsionRadius :: real

text \<open>The tunables of \<open>Settings.js\<close> and \<open>Defaults\<close> that \<open>Path.js\<close> reads.\<close>

record settings =
  MinDistance :: real
  MaxDistance :: real
  RepulsionRadius :: real
  AttractionForce :: real
  RepulsionForce :: real
  AlignmentForce :: real
  NodeInjectionInterval :: real
  BrownianMotionRange :: real
  MaxHistorySize :: int
  DrawNodes :: bool
  TraceMode :: bool
  InvertedColors :: bool
  DebugMode :: bool
  FillMode :: bool
  UseBrownianMotion :: bool
  DrawHistory :: bool
  ShowBounds :: bool

text \<open>
  A colour object \<open>{h, s, b, a}\<close>. Colour objects are shared by reference:
  \<open>this.currentFillColor = this.fillColor\<close> makes both fields name one object, and
  \<open>setTraceMode\<close> writes the field \<open>a\<close> through \<open>currentFillColor\<close>. So the path
  holds references (addresses) and the objects live in a store.
\<close>

record color =
  col_h :: real
  col_s :: real
  col_b :: real
  col_a :: real

type_synonym ref = nat

type_synonym colorStore = "ref \<Rightarrow> color"

text \<open>
  A \<open>Bounds\<close> object is a polygon; the path borrows it. \<open>bounds = false\<close> (the
  constructor's default) is \<open>None\<close>.
\<close>

type_synonym polygon = "(real \<times> real) list"

record path =
  nodes :: "node list"
  isClosed :: bool
  settings :: settings
  bounds :: "polygon option"
  injectionMode :: string
  lastNodeInjectTime :: real
  nodeHistory :: "node list list"
  drawNodes :: bool
  invertedColors :: bool
  traceMode :: bool
  debugMode :: bool
  fillMode :: bool
  useBrownianMotion :: bool
  drawHistory :: bool
  showBounds :: bool
  fillColor :: ref
  strokeColor :: ref
  invertedFillColor :: ref
  invertedStrokeColor :: ref
  currentFillColor :: ref
  currentStrokeColor :: ref

datatype js_error = TypeError

section \<open>Helpers of the host language and of p5\<close>

text \<open>\<open>xs[i]\<close> of JavaScript: \<open>undefined\<close> (here \<open>None\<close>) outside the array.\<close>

definition nth_opt :: "'a list \<Rightarrow> int \<Rightarrow> 'a option" where
  "nth_opt xs i = (if 0 \<le> i \<and> i < int (length xs) then Some (xs ! nat i) else None)"

text \<open>
  \<open>xs.splice(start, deleteCount, items...)\<close> for \<open>0 \<le> start\<close>; a start beyond the
  end is clamped to the length, as \<open>take\<close> and \<open>drop\<close> do. No caller in \<open>Path.js\<close>
  passes a negative start on a non-empty array.
\<close>

definition splice_js :: "'a list \<Rightarrow> nat \<Rightarrow> nat \<Rightarrow> 'a list \<Rightarrow> 'a list" where
  "splice_js xs start deleteCount items = take start xs @ items @ drop (start + deleteCount) xs"

text \<open>\<open>p5.lerp(start, stop, amt)\<close>.\<close>

definition lerp :: "real \<Rightarrow> real \<Rightarrow> real \<Rightarrow> real" where
  "lerp start stop amt = amt * (stop - start) + start"

section \<open>Node\<close>

text \<open>
  Modelled from the spec: \<open>core/Node.js\<close> is not among the sources. The constructor
  \<open>new Node(p5, x, y, settings, isFixed)\<close> stores the position, the fixed flag and the
  per-node thresholds of the settings; the spec does not say what it stores in
  \<open>nextPosition\<close>, the model takes the node's own position (no claim depends on it).
\<close>

definition newNode :: "real \<Rightarrow> real \<Rightarrow> settings \<Rightarrow> bool \<Rightarrow> node" where
  "newNode px py s fixed =
     \<lparr> x = px, y = py, nextPosition = (px, py), isFixed = fixed,
       minDistance = MinDistance s, maxDistance = MaxDistance s,
       repulsionRadius = RepulsionRadius s \<rparr>"

text \<open>
  Modelled from the spec: \<open>Node.distance(other)\<close>, the Euclidean distance of the two
  current positions.
\<close>

definition distance :: "node \<Rightarrow> node \<Rightarrow> real" where
  "distance n m = sqrt ((x m - x n)\<^sup>2 + (y m - y n)\<^sup>2)"

section \<open>Path: neighbours and midpoints\<close>

definition getConnectedNodes :: "nat \<Rightarrow> path \<Rightarrow> node option \<times> node option" where
  "getConnectedNodes index p =
     (let ns = nodes p;
          len = int (length ns);
          i = int index;
          previousNode =
            (if i = 0 \<and> isClosed p then nth_opt ns (len - 1)
             else if i \<ge> 1 then nth_opt ns (i - 1)
             else None);
          nextNode =
            (if i = len - 1 \<and> isClosed p then nth_opt ns 0
             else if i \<le> len - 1 then nth_opt ns (i + 1)
             else None)
      in (previousNode, nextNode))"

text \<open>
  \<open>(node1.x + node2.x) / 2\<close> is computed in doubles: the sum is rounded, and so is the
  quotient. \<open>fl\<close> is that rounding, the double nearest to a real number in the range
  of the doubles; it is a parameter of the model, and nothing is assumed of it.
\<close>

definition getMidpointNode :: "(real \<Rightarrow> real) \<Rightarrow> path \<Rightarrow> node \<Rightarrow> node \<Rightarrow> bool \<Rightarrow> node" where
  "getMidpointNode fl p node1 node2 fixed =
     newNode (fl (fl (x node1 + x node2) / 2)) (fl (fl (y node1 + y node2) / 2))
       (settings p) fixed"

section \<open>Path: construction\<close>

text \<open>
  The constructor. \<open>Object.assign({}, Defaults, settings)\<close> merges the overrides with
  \<open>Defaults\<close> (not among the sources); the parameter \<open>s\<close> is the merged record. The
  four colour arguments are references to colour objects.
\<close>

definition newPath ::
  "node list \<Rightarrow> settings \<Rightarrow> bool \<Rightarrow> polygon option \<Rightarrow> ref \<Rightarrow> ref \<Rightarrow> ref \<Rightarrow> ref \<Rightarrow> path" where
  "newPath ns s cl b fc sc ifc isc =
     \<lparr> nodes = ns, isClosed = cl, settings = s, bounds = b,
       injectionMode = ''RANDOM'', lastNodeInjectTime = 0, nodeHistory = [],
       drawNodes = DrawNodes s, invertedColors = InvertedColors s, traceMode = TraceMode s,
       debugMode = DebugMode s, fillMode = FillMode s,
       useBrownianMotion = UseBrownianMotion s, drawHistory = DrawHistory s,
       showBounds = ShowBounds s,
       fillColor = fc, strokeColor = sc, invertedFillColor = ifc, invertedStrokeColor = isc,
       currentFillColor = (if InvertedColors s then ifc else fc),
       currentStrokeColor = (if InvertedColors s then isc else sc) \<rparr>"

section \<open>Path: forces\<close>

text \<open>
  Every force takes the index of the node it acts on. Reading a field of
  \<open>this.nodes[index]\<close> outside the array raises a \<open>TypeError\<close>; the short-circuit
  order of the source's conditions decides whether that read happens.

  \<open>applyBrownianMotion\<close>: \<open>rx\<close> and \<open>ry\<close> are the values of the two calls
  \<open>p5.random(-BrownianMotionRange/2, BrownianMotionRange/2)\<close>.
\<close>

definition applyBrownianMotion :: "nat \<Rightarrow> real \<Rightarrow> real \<Rightarrow> path \<Rightarrow> js_error + path" where
  "applyBrownianMotion index rx ry p =
     (case nth_opt (nodes p) (int index) of
        None \<Rightarrow> Inl TypeError
      | Some n \<Rightarrow> Inr (p\<lparr>nodes := (nodes p)[index := n\<lparr>x := x n + rx, y := y n + ry\<rparr>]\<rparr>))"

text \<open>One of the two \<open>if\<close> blocks of \<open>applyAttraction\<close>, for the neighbour given.\<close>

definition attractTo :: "nat \<Rightarrow> node option \<Rightarrow> path \<Rightarrow> js_error + path" where
  "attractTo index neighbor p =
     (case neighbor of
        None \<Rightarrow> Inr p
      | Some other \<Rightarrow>
          (case nth_opt (nodes p) (int index) of
             None \<Rightarrow> Inl TypeError
           | Some n \<Rightarrow>
               if \<not> isFixed n then
                 (let dist = distance n other;
                      leastMinDistance = min (minDistance n) (minDistance other)
                  in if dist > leastMinDistance then
                       Inr (p\<lparr>nodes := (nodes p)[index := n\<lparr>nextPosition :=
                         (lerp (fst (nextPosition n)) (x other) (AttractionForce (settings p)),
                          lerp (snd (nextPosition n)) (y other) (AttractionForce (settings p)))\<rparr>]\<rparr>)
                     else Inr p)
               else Inr p))"

definition applyAttraction :: "nat \<Rightarrow> path \<Rightarrow> js_error + path" where
  "applyAttraction index p =
     (let connectedNodes = getConnectedNodes index p in
      case attractTo index (snd connectedNodes) p of
        Inl e \<Rightarrow> Inl e
      | Inr p1 \<Rightarrow> attractTo index (fst connectedNodes) p1)"

text \<open>
  \<open>knn\<close> is the radius query of the library rbush-knn, a parameter of the model:
  \<open>knn tree qx qy r\<close> stands for \<open>knn(tree, qx, qy, undefined, undefined, r)\<close>. The
  items of the index are nodes. \<open>repel\<close> is the body of the loop over the hits, for
  an index inside the array (\<open>applyRepulsion\<close> has read \<open>this.nodes[index]\<close> before the
  loop starts).
\<close>

type_synonym knn_query = "node list \<Rightarrow> real \<Rightarrow> real \<Rightarrow> real \<Rightarrow> node list"

definition repel :: "nat \<Rightarrow> node \<Rightarrow> path \<Rightarrow> path" where
  "repel index other p =
     p\<lparr>nodes := (nodes p)[index := (nodes p ! index)\<lparr>nextPosition :=
        (lerp (x (nodes p ! index)) (x other) (- RepulsionForce (settings p)),
         lerp (y (nodes p ! index)) (y other) (- RepulsionForce (settings p)))\<rparr>]\<rparr>"

definition applyRepulsion :: "knn_query \<Rightarrow> nat \<Rightarrow> node list \<Rightarrow> path \<Rightarrow> js_error + path" where
  "applyRepulsion knn index tree p =
     (case nth_opt (nodes p) (int index) of
        None \<Rightarrow> Inl TypeError
      | Some n \<Rightarrow>
          (let neighbors = knn tree (x n) (y n) (repulsionRadius n * repulsionRadius n)
           in Inr (fold (repel index) neighbors p)))"

definition applyAlignment :: "(real \<Rightarrow> real) \<Rightarrow> nat \<Rightarrow> path \<Rightarrow> js_error + path" where
  "applyAlignment fl index p =
     (let connectedNodes = getConnectedNodes index p in
      case fst connectedNodes of
        None \<Rightarrow> Inr p
      | Some previousNode \<Rightarrow>
          (case snd connectedNodes of
             None \<Rightarrow> Inr p
           | Some nextNode \<Rightarrow>
               (case nth_opt (nodes p) (int index) of
                  None \<Rightarrow> Inl TypeError
                | Some n \<Rightarrow>
                    if \<not> isFixed n then
                      (let midpoint = getMidpointNode fl p previousNode nextNode False
                       in Inr (p\<lparr>nodes := (nodes p)[index := n\<lparr>nextPosition :=
                            (lerp (fst (nextPosition n)) (x midpoint) (AlignmentForce (settings p)),
                             lerp (snd (nextPosition n)) (y midpoint) (AlignmentForce (settings p)))\<rparr>]\<rparr>))
                    else Inr p)))"

text \<open>
  \<open>contains\<close> is the containment test \<open>Bounds.contains\<close> (\<open>core/Bounds.js\<close> is not
  among the sources), a parameter of the model.
\<close>

definition applyBounds :: "(polygon \<Rightarrow> real \<times> real \<Rightarrow> bool) \<Rightarrow> nat \<Rightarrow> path \<Rightarrow> js_error + path" where
  "applyBounds contains index p =
     (case bounds p of
        None \<Rightarrow> Inr p
      | Some b \<Rightarrow>
          (case nth_opt (nodes p) (int index) of
             None \<Rightarrow> Inl TypeError
           | Some n \<Rightarrow>
               if \<not> contains b (x n, y n) then
                 Inr (p\<lparr>nodes := (nodes p)[index := n\<lparr>isFixed := True\<rparr>]\<rparr>)
               else Inr p))"

section \<open>Path: splitting, pruning and injection\<close>

text \<open>
  The three loops run over \<open>this.nodes.entries()\<close>, an iterator over the live array:
  it yields the next index as long as that index is below the current length, so a
  splice in the body changes what the loop visits. Each loop is its body, a function of
  the index and the path, and the iteration of that body.

  A midpoint inserted by \<open>splitEdges\<close> makes the array longer by one, and the loop
  visits the same node again at the next index. Nothing bounds the number of rounds
  (with \<open>MaxDistance \<le> 0\<close> every visit splits, and so does every visit of a node
  whose midpoint with its previous neighbour is rounded to that neighbour while the two
  are \<open>MaxDistance\<close> apart), so the loop is a partial function: \<open>None\<close> is a call
  that does not return.
\<close>

definition splitEdges_body :: "(real \<Rightarrow> real) \<Rightarrow> nat \<Rightarrow> path \<Rightarrow> path" where
  "splitEdges_body fl index p =
     (let node = nodes p ! index;
          connectedNodes = getConnectedNodes index p
      in case fst connectedNodes of
           None \<Rightarrow> p
         | Some previousNode \<Rightarrow>
             if distance node previousNode \<ge> MaxDistance (settings p) then
               (let midpointNode = getMidpointNode fl p node previousNode False
                in if index = 0
                   then p\<lparr>nodes := splice_js (nodes p) (length (nodes p)) 0 [midpointNode]\<rparr>
                   else p\<lparr>nodes := splice_js (nodes p) index 0 [midpointNode]\<rparr>)
             else p)"

partial_function (option) splitEdges_loop :: "(real \<Rightarrow> real) \<Rightarrow> nat \<Rightarrow> path \<Rightarrow> path option" where
  "splitEdges_loop fl index p =
     (if index < length (nodes p)
      then splitEdges_loop fl (index + 1) (splitEdges_body fl index p)
      else Some p)"

definition splitEdges :: "(real \<Rightarrow> real) \<Rightarrow> path \<Rightarrow> path option" where
  "splitEdges fl p = splitEdges_loop fl 0 p"

definition pruneNodes_body :: "nat \<Rightarrow> path \<Rightarrow> path" where
  "pruneNodes_body index p =
     (let node = nodes p ! index;
          connectedNodes = getConnectedNodes index p
      in case fst connectedNodes of
           None \<Rightarrow> p
         | Some previousNode \<Rightarrow>
             if distance node previousNode < MinDistance (settings p) then
               (if index = 0 then
                  (if \<not> isFixed (nodes p ! (length (nodes p) - 1))
                   then p\<lparr>nodes := splice_js (nodes p) (length (nodes p) - 1) 1 []\<rparr>
                   else p)
                else
                  (if \<not> isFixed (nodes p ! (index - 1))
                   then p\<lparr>nodes := splice_js (nodes p) (index - 1) 1 []\<rparr>
                   else p))
             else p)"

function pruneNodes_loop :: "nat \<Rightarrow> path \<Rightarrow> path" where
  "pruneNodes_loop index p =
     (if index < length (nodes p)
      then pruneNodes_loop (index + 1) (pruneNodes_body index p)
      else p)"
  by pat_completeness auto
termination
proof (relation "measure (\<lambda>(index, p). length (nodes p) - index)")
  show "wf (measure (\<lambda>(index, p). length (nodes p) - index))" by simp
next
  fix index :: nat and p :: path
  assume "index < length (nodes p)"
  moreover have "length (nodes (pruneNodes_body index p)) \<le> length (nodes p)"
    by (auto simp: pruneNodes_body_def splice_js_def Let_def split: option.splits)
  ultimately show "((index + 1, pruneNodes_body index p), (index, p))
               \<in> measure (\<lambda>(index, p). length (nodes p) - index)"
    by simp
qed

declare pruneNodes_loop.simps [simp del]

definition pruneNodes :: "path \<Rightarrow> path" where
  "pruneNodes p = pruneNodes_loop 0 p"

text \<open>
  \<open>injectRandomNode\<close>: \<open>index\<close> is the value of
  \<open>parseInt(p5.random(1, this.nodes.length))\<close>.
\<close>

definition injectRandomNode :: "(real \<Rightarrow> real) \<Rightarrow> nat \<Rightarrow> path \<Rightarrow> js_error + path" where
  "injectRandomNode fl index p =
     (let connectedNodes = getConnectedNodes index p in
      case fst connectedNodes of
        None \<Rightarrow> Inr p
      | Some previousNode \<Rightarrow>
          (case snd connectedNodes of
             None \<Rightarrow> Inr p
           | Some nextNode \<Rightarrow>
               (case nth_opt (nodes p) (int index) of
                  None \<Rightarrow> Inl TypeError
                | Some n \<Rightarrow>
                    if distance n previousNode > MinDistance (settings p) then
                      (let midpointNode = getMidpointNode fl p n previousNode False
                       in Inr (p\<lparr>nodes := splice_js (nodes p) index 0 [midpointNode]\<rparr>))
                    else Inr p)))"

text \<open>
  \<open>Math.round\<close> rounds to the nearest integer, a half upwards. The angle
  \<open>Math.round(Math.abs(Math.atan(n / d)))\<close>: for \<open>d = 0\<close> the quotient is an infinity
  (\<open>n \<noteq> 0\<close>), whose arc tangent is \<open>\<plusminus>\<pi>/2\<close>, or \<open>NaN\<close> (\<open>n = 0\<close>), which stays
  \<open>NaN\<close> (here \<open>None\<close>) through \<open>atan\<close>, \<open>abs\<close> and \<open>round\<close>. The sign of a zero
  divisor is lost in \<open>Math.abs\<close>. A comparison with \<open>NaN\<close> is false.
\<close>

definition js_round :: "real \<Rightarrow> int" where
  "js_round r = \<lfloor>r + 1 / 2\<rfloor>"

definition curvatureAngle :: "real \<Rightarrow> real \<Rightarrow> int option" where
  "curvatureAngle n d =
     (if d = 0 then (if n = 0 then None else Some (js_round (pi / 2)))
      else Some (js_round \<bar>arctan (n / d)\<bar>))"

definition js_greater :: "int option \<Rightarrow> int \<Rightarrow> bool" where
  "js_greater a k = (case a of None \<Rightarrow> False | Some v \<Rightarrow> v > k)"

definition injectNodeByCurvature_body :: "(real \<Rightarrow> real) \<Rightarrow> nat \<Rightarrow> path \<Rightarrow> path" where
  "injectNodeByCurvature_body fl index p =
     (let node = nodes p ! index;
          connectedNodes = getConnectedNodes index p
      in case fst connectedNodes of
           None \<Rightarrow> p
         | Some previousNode \<Rightarrow>
             (case snd connectedNodes of
                None \<Rightarrow> p
              | Some nextNode \<Rightarrow>
                  (let n = y nextNode - y previousNode;
                       d = x nextNode - x previousNode;
                       angle = curvatureAngle n d
                   in if js_greater angle 20 then
                        (let previousMidpointNode = getMidpointNode fl p node previousNode False;
                             nextMidpointNode = getMidpointNode fl p node nextNode False
                         in if index = 0 then
                              p\<lparr>nodes := splice_js
                                   (splice_js (nodes p) (length (nodes p) - 1) 0 [previousMidpointNode])
                                   0 0 [nextMidpointNode]\<rparr>
                            else
                              p\<lparr>nodes := splice_js (nodes p) index 1
                                   [previousMidpointNode, nextMidpointNode]\<rparr>)
                      else p)))"

partial_function (option) injectNodeByCurvature_loop ::
  "(real \<Rightarrow> real) \<Rightarrow> nat \<Rightarrow> path \<Rightarrow> path option" where
  "injectNodeByCurvature_loop fl index p =
     (if index < length (nodes p)
      then injectNodeByCurvature_loop fl (index + 1) (injectNodeByCurvature_body fl index p)
      else Some p)"

definition injectNodeByCurvature :: "(real \<Rightarrow> real) \<Rightarrow> path \<Rightarrow> path option" where
  "injectNodeByCurvature fl p = injectNodeByCurvature_loop fl 0 p"

section \<open>Path: colours and trace mode\<close>

text \<open>
  The colour operations act on the store of colour objects and on the path. Both
  branches of \<open>setTraceMode\<close> write the same opacity, as in the source.
\<close>

definition setTraceMode :: "bool \<Rightarrow> colorStore \<times> path \<Rightarrow> colorStore \<times> path" where
  "setTraceMode state = (\<lambda>(st, p).
     (let p1 = p\<lparr>traceMode := state\<rparr> in
      if \<not> traceMode p1 then
        (let st1 = st(currentFillColor p1 := (st (currentFillColor p1))\<lparr>col_a := 255\<rparr>);
             st2 = st1(currentStrokeColor p1 := (st1 (currentStrokeColor p1))\<lparr>col_a := 255\<rparr>)
         in (st2, p1))
      else
        (let st1 = st(currentFillColor p1 := (st (currentFillColor p1))\<lparr>col_a := 255\<rparr>);
             st2 = st1(currentStrokeColor p1 := (st1 (currentStrokeColor p1))\<lparr>col_a := 255\<rparr>)
         in (st2, p1))))"

definition setInvertedColors :: "bool \<Rightarrow> colorStore \<times> path \<Rightarrow> colorStore \<times> path" where
  "setInvertedColors state = (\<lambda>(st, p).
     (let p1 = p\<lparr>invertedColors := state\<rparr>;
          p2 = (if \<not> invertedColors p1
                then p1\<lparr>currentFillColor := fillColor p1, currentStrokeColor := strokeColor p1\<rparr>
                else p1\<lparr>currentFillColor := invertedFillColor p1,
                        currentStrokeColor := invertedStrokeColor p1\<rparr>)
      in setTraceMode (traceMode p2) (st, p2)))"

definition getTraceMode :: "path \<Rightarrow> bool" where
  "getTraceMode p = traceMode p"

definition getInvertedColors :: "path \<Rightarrow> bool" where
  "getInvertedColors p = invertedColors p"

definition toggleTraceMode :: "colorStore \<times> path \<Rightarrow> colorStore \<times> path" where
  "toggleTraceMode = (\<lambda>(st, p). setTraceMode (\<not> getTraceMode p) (st, p))"

definition toggleInvertedColors :: "colorStore \<times> path \<Rightarrow> colorStore \<times> path" where
  "toggleInvertedColors = (\<lambda>(st, p). setInvertedColors (\<not> getInvertedColors p) (st, p))"

section \<open>Path: history\<close>

text \<open>
  \<open>JSON.parse(JSON.stringify(this.nodes))\<close> is a deep copy; on values it is the list
  itself. \<open>shift\<close> drops the first element and leaves an empty array empty.
\<close>

definition addToHistory :: "path \<Rightarrow> path" where
  "addToHistory p =
     (let p1 = (if int (length (nodeHistory p)) = MaxHistorySize (settings p)
                then p\<lparr>nodeHistory := tl (nodeHistory p)\<rparr> else p)
      in p1\<lparr>nodeHistory := nodeHistory p1 @ [nodes p1]\<rparr>)"

text \<open>
  The history after a run in which \<open>addToHistory\<close> is called once for each element of
  a list, the path's nodes being that element at the time of the call.
\<close>

fun recordHistory :: "path \<Rightarrow> node list list \<Rightarrow> path" where
  "recordHistory p [] = p"
| "recordHistory p (ns # rest) = recordHistory (addToHistory (p\<lparr>nodes := ns\<rparr>)) rest"

section \<open>Path: one tick and the remaining operations\<close>

text \<open>
  Modelled from the spec: \<open>Node.iterate()\<close> (\<open>core/Node.js\<close> is not among the sources)
  "moves current position a fixed fraction of the way toward target (simple first-order
  lerp toward \<open>nextPosition\<close>)". The fraction is a parameter.
\<close>

definition Node_iterate :: "real \<Rightarrow> node \<Rightarrow> node" where
  "Node_iterate fraction n =
     n\<lparr>x := lerp (x n) (fst (nextPosition n)) fraction,
       y := lerp (y n) (snd (nextPosition n)) fraction\<rparr>"

text \<open>
  What one call of \<open>iterate\<close> takes from outside the path: the values of the two
  \<open>p5.random\<close> calls of the jitter for the node at an index, the radius query and the
  items of the index as they are when the node at an index is processed (the items are
  the node objects themselves, so their coordinates are live), the containment test of
  \<open>Bounds\<close>, the step fraction of \<open>Node.iterate\<close>, the rounding of the midpoint
  arithmetic, the two readings of \<open>p5.millis()\<close>, and the value of
  \<open>parseInt(p5.random(1, this.nodes.length))\<close>.
\<close>

record host =
  h_random :: "nat \<Rightarrow> real \<times> real"
  h_knn :: knn_query
  h_tree :: "nat \<Rightarrow> node list"
  h_contains :: "polygon \<Rightarrow> real \<times> real \<Rightarrow> bool"
  h_fraction :: real
  h_round :: "real \<Rightarrow> real"
  h_millis_test :: real
  h_millis_store :: real
  h_randomIndex :: nat

text \<open>The body of the loop of \<open>iterate\<close> for the node at \<open>index\<close>.\<close>

definition iterate_node :: "host \<Rightarrow> nat \<Rightarrow> path \<Rightarrow> js_error + path" where
  "iterate_node h index p =
     (case (if useBrownianMotion p
            then applyBrownianMotion index (fst (h_random h index)) (snd (h_random h index)) p
            else Inr p) of
        Inl e \<Rightarrow> Inl e
      | Inr p1 \<Rightarrow>
     (case applyAttraction index p1 of
        Inl e \<Rightarrow> Inl e
      | Inr p2 \<Rightarrow>
     (case applyRepulsion (h_knn h) index (h_tree h index) p2 of
        Inl e \<Rightarrow> Inl e
      | Inr p3 \<Rightarrow>
     (case applyAlignment (h_round h) index p3 of
        Inl e \<Rightarrow> Inl e
      | Inr p4 \<Rightarrow>
     (case applyBounds (h_contains h) index p4 of
        Inl e \<Rightarrow> Inl e
      | Inr p5 \<Rightarrow>
          Inr (p5\<lparr>nodes := (nodes p5)[index := Node_iterate (h_fraction h) (nodes p5 ! index)]\<rparr>))))))"

function iterate_loop :: "host \<Rightarrow> nat \<Rightarrow> path \<Rightarrow> js_error + path" where
  "iterate_loop h index p =
     (if index < length (nodes p) then
        (case iterate_node h index p of
           Inl e \<Rightarrow> Inl e
         | Inr p1 \<Rightarrow> iterate_loop h (index + 1) p1)
      else Inr p)"
  by pat_completeness auto
termination
proof (relation "measure (\<lambda>(h, index, p). length (nodes p) - index)")
  show "wf (measure (\<lambda>(h, index, p). length (nodes p) - index))" by simp
next
  fix h :: host and index :: nat and p p1 :: path
  assume lt: "index < length (nodes p)" and r: "iterate_node h index p = Inr p1"
  have a: "length (nodes q') = length (nodes q)"
    if "applyBrownianMotion index rx ry q = Inr q'" for rx ry q q'
    using that by (auto simp: applyBrownianMotion_def split: option.splits)
  have t: "length (nodes q') = length (nodes q)"
    if "attractTo index nb q = Inr q'" for nb q q'
    using that by (auto simp: attractTo_def Let_def split: option.splits if_splits)
  have b: "length (nodes q') = length (nodes q)"
    if "applyAttraction index q = Inr q'" for q q'
    using that t by (auto simp: applyAttraction_def Let_def split: sum.splits)
  have f: "length (nodes (fold (repel index) hits q)) = length (nodes q)" for hits q
    by (induction hits arbitrary: q) (simp_all add: repel_def)
  have c: "length (nodes q') = length (nodes q)"
    if "applyRepulsion knn index tree q = Inr q'" for knn tree q q'
    using that f by (auto simp: applyRepulsion_def Let_def split: option.splits)
  have d: "length (nodes q') = length (nodes q)"
    if "applyAlignment fl index q = Inr q'" for fl q q'
    using that by (auto simp: applyAlignment_def Let_def split: option.splits if_splits)
  have e: "length (nodes q') = length (nodes q)"
    if "applyBounds cont index q = Inr q'" for cont q q'
    using that by (auto simp: applyBounds_def split: option.splits if_splits)
  have "length (nodes p1) = length (nodes p)"
    using r a b c d e
    by (auto simp: iterate_node_def split: sum.splits if_splits)
  then show "((h, index + 1, p1), (h, index, p)) \<in> measure (\<lambda>(h, index, p). length (nodes p) - index)"
    using lt by simp
qed

declare iterate_loop.simps [simp del]

text \<open>The \<open>switch\<close> of \<open>injectNode\<close>; a mode that is neither string does nothing.\<close>

definition injectNode :: "host \<Rightarrow> path \<Rightarrow> (js_error + path) option" where
  "injectNode h p =
     (if injectionMode p = ''RANDOM'' then Some (injectRandomNode (h_round h) (h_randomIndex h) p)
      else if injectionMode p = ''CURVATURE'' then map_option Inr (injectNodeByCurvature (h_round h) p)
      else Some (Inr p))"

text \<open>
  One tick. The result is \<open>None\<close> when the call does not return, \<open>Some (Inl e)\<close> when it
  raises, \<open>Some (Inr p')\<close> when it returns.
\<close>

definition iterate :: "host \<Rightarrow> path \<Rightarrow> (js_error + path) option" where
  "iterate h p =
     (case iterate_loop h 0 p of
        Inl e \<Rightarrow> Some (Inl e)
      | Inr p1 \<Rightarrow>
          (case splitEdges (h_round h) p1 of
             None \<Rightarrow> None
           | Some p2 \<Rightarrow>
               (let p3 = pruneNodes p2 in
                if h_millis_test h - lastNodeInjectTime p3 \<ge> NodeInjectionInterval (settings p3)
                then (case injectNode h p3 of
                        None \<Rightarrow> None
                      | Some (Inl e) \<Rightarrow> Some (Inl e)
                      | Some (Inr p4) \<Rightarrow> Some (Inr (p4\<lparr>lastNodeInjectTime := h_millis_store h\<rparr>)))
                else Some (Inr p3))))"

text \<open>Operations on all nodes.\<close>

definition moveTo :: "real \<Rightarrow> real \<Rightarrow> path \<Rightarrow> path" where
  "moveTo xOffset yOffset p =
     p\<lparr>nodes := map (\<lambda>n. n\<lparr>x := x n + xOffset, y := y n + yOffset\<rparr>) (nodes p)\<rparr>"

definition scale :: "real \<Rightarrow> path \<Rightarrow> path" where
  "scale factor p = p\<lparr>nodes := map (\<lambda>n. n\<lparr>x := x n * factor, y := y n * factor\<rparr>) (nodes p)\<rparr>"

definition addNode :: "node \<Rightarrow> path \<Rightarrow> path" where
  "addNode n p = p\<lparr>nodes := nodes p @ [n]\<rparr>"

definition setMinDistance :: "real \<Rightarrow> path \<Rightarrow> path" where
  "setMinDistance v p =
     p\<lparr>settings := (settings p)\<lparr>MinDistance := v\<rparr>,
       nodes := map (\<lambda>n. n\<lparr>minDistance := v\<rparr>) (nodes p)\<rparr>"

definition setMaxDistance :: "real \<Rightarrow> path \<Rightarrow> path" where
  "setMaxDistance v p =
     p\<lparr>settings := (settings p)\<lparr>MaxDistance := v\<rparr>,
       nodes := map (\<lambda>n. n\<lparr>maxDistance := v\<rparr>) (nodes p)\<rparr>"

definition setRepulsionRadius :: "real \<Rightarrow> path \<Rightarrow> path" where
  "setRepulsionRadius v p =
     p\<lparr>settings := (settings p)\<lparr>RepulsionRadius := v\<rparr>,
       nodes := map (\<lambda>n. n\<lparr>repulsionRadius := v\<rparr>) (nodes p)\<rparr>"

definition setBounds :: "polygon option \<Rightarrow> path \<Rightarrow> path" where
  "setBounds b p = p\<lparr>bounds := b\<rparr>"

text \<open>A run of ticks, one host for each; it stops at the first tick that raises or does
  not return.\<close>

fun iterateMany :: "host list \<Rightarrow> path \<Rightarrow> (js_error + path) option" where
  "iterateMany [] p = Some (Inr p)"
| "iterateMany (h # hs) p =
     (case iterate h p of
        None \<Rightarrow> None
      | Some (Inl e) \<Rightarrow> Some (Inl e)
      | Some (Inr p1) \<Rightarrow> iterateMany hs p1)"

section \<open>Example data\<close>

text \<open>
  The settings of \<open>experiments/07 - bounds/js/Settings.js\<close>. It leaves
  \<open>BrownianMotionRange\<close>, \<open>MaxHistorySize\<close> and \<open>UseBrownianMotion\<close> to \<open>Defaults\<close>;
  the values given here for the three are examples.
\<close>

definition exampleSettings :: settings where
  "exampleSettings =
     \<lparr> MinDistance = 10, MaxDistance = 20, RepulsionRadius = 30,
       AttractionForce = 2 / 10, RepulsionForce = 6 / 10, AlignmentForce = 55 / 100,
       NodeInjectionInterval = 100, BrownianMotionRange = 1 / 100, MaxHistorySize = 2,
       DrawNodes = False, TraceMode = False, InvertedColors = True, DebugMode = False,
       FillMode = False, UseBrownianMotion = False, DrawHistory = False,
       ShowBounds = True \<rparr>"

text \<open>
  The rounding of the examples. Every sum and every half that the examples round is a
  double (an integer or a half-integer of small size), and rounding leaves a double as
  it is.
\<close>

definition exampleRound :: "real \<Rightarrow> real" where
  "exampleRound r = r"

text \<open>
  A node made by the constructor, a path of such nodes whose four colour arguments are
  the addresses 0 to 3, and a store with black at 0 and 1 and white at 2 and 3, as the
  constructor's defaults have them, but with the opacity 100, so that a write of the
  opacity shows.
\<close>

definition exampleNode :: "real \<Rightarrow> real \<Rightarrow> node" where
  "exampleNode px py = newNode px py exampleSettings False"

definition examplePath :: "node list \<Rightarrow> bool \<Rightarrow> path" where
  "examplePath ns cl = newPath ns exampleSettings cl None 0 1 2 3"

definition exampleStore :: colorStore where
  "exampleStore r =
     (if r = 2 \<or> r = 3 then \<lparr> col_h = 0, col_s = 0, col_b = 255, col_a = 100 \<rparr>
      else \<lparr> col_h = 0, col_s = 0, col_b = 0, col_a = 100 \<rparr>)"

text \<open>
  An instance of the radius query for the examples, on an index that is a list of its
  items: the items whose squared distance from the query point is at most
  the last argument, nearest first.
\<close>

definition knnWithin :: knn_query where
  "knnWithin tree qx qy maxDist =
     sort_key (\<lambda>n. (x n - qx)\<^sup>2 + (y n - qy)\<^sup>2)
       (filter (\<lambda>n. (x n - qx)\<^sup>2 + (y n - qy)\<^sup>2 \<le> maxDist) tree)"

text \<open>
  For the examples: the square with the corners (-5, -5) and (5, 5) as bounds, its
  containment test, and a host with an empty spatial index, the step fraction 1 and a
  clock that has not reached the injection interval.
\<close>

definition exampleBounds :: polygon where
  "exampleBounds = [(- 5, - 5), (5, - 5), (5, 5), (- 5, 5)]"

definition exampleContains :: "polygon \<Rightarrow> real \<times> real \<Rightarrow> bool" where
  "exampleContains b q = (\<bar>fst q\<bar> \<le> 5 \<and> \<bar>snd q\<bar> \<le> 5)"

definition exampleHost :: host where
  "exampleHost =
     \<lparr> h_random = (\<lambda>i. (0, 0)), h_knn = knnWithin, h_tree = (\<lambda>i. []),
       h_contains = exampleContains, h_fraction = 1, h_round = exampleRound,
       h_millis_test = 0, h_millis_store = 0,
       h_randomIndex = 1 \<rparr>"

section \<open>Notions used in the statements\<close>

text \<open>
  The node at index \<open>i\<close> needs no pruning: it has no previous neighbour, or it is at
  least \<open>MinDistance\<close> away from that neighbour, or that neighbour is fixed.
\<close>

definition far_enough :: "nat \<Rightarrow> path \<Rightarrow> bool" where
  "far_enough i p =
     (case fst (getConnectedNodes i p) of
        None \<Rightarrow> True
      | Some q \<Rightarrow> MinDistance (settings p) \<le> distance (nodes p ! i) q \<or> isFixed q)"

text \<open>
  The edge lengths of a path: for every node that has a previous neighbour (on a closed
  path the first node has the last one), its distance to that neighbour, in the order
  of the indices.
\<close>

definition edgeLengths :: "path \<Rightarrow> real list" where
  "edgeLengths p =
     concat (map (\<lambda>i. case fst (getConnectedNodes i p) of
                          None \<Rightarrow> []
                        | Some q \<Rightarrow> [distance (nodes p ! i) q])
                 [0..<length (nodes p)])"

text \<open>
  What the loop of \<open>splitEdges\<close> measures when it comes back to an edge it has split.
  For a node that is at least \<open>MaxDistance\<close> away from its previous neighbour the
  midpoint of the two is inserted before the node, and the next round of the loop
  measures the distance of the node to that midpoint. For index 0 of a closed path the
  midpoint goes to the end of the array, and the loop measures, when it arrives there,
  the distance of the midpoint to its previous neighbour, the last node of before.
\<close>

definition revisitLengths :: "(real \<Rightarrow> real) \<Rightarrow> path \<Rightarrow> real list" where
  "revisitLengths fl p =
     concat (map (\<lambda>i. case fst (getConnectedNodes i p) of
                          None \<Rightarrow> []
                        | Some q \<Rightarrow>
                            if distance (nodes p ! i) q \<ge> MaxDistance (settings p)
                            then [if i = 0
                                  then distance (getMidpointNode fl p (nodes p ! i) q False) q
                                  else distance (nodes p ! i)
                                         (getMidpointNode fl p (nodes p ! i) q False)]
                            else [])
                 [0..<length (nodes p)])"


section \<open>Edge splitting as C2 states it\<close>

text \<open>
  One pass over the nodes as they are before the call: for every node whose distance
  to its previous neighbour is too long, one midpoint of the pair, immediately before
  the node; for index 0 of a closed path that place is the end of the array. The
  comparison with \<open>MaxDistance\<close> is a parameter: C2 says that the distance exceeds the
  threshold, the source tests \<open>>=\<close>.
\<close>

definition midpointBefore ::
  "(real \<Rightarrow> real) \<Rightarrow> (real \<Rightarrow> real \<Rightarrow> bool) \<Rightarrow> nat \<Rightarrow> path \<Rightarrow> node list" where
  "midpointBefore fl tooLong i p =
     (case fst (getConnectedNodes i p) of
        None \<Rightarrow> []
      | Some q \<Rightarrow>
          if tooLong (distance (nodes p ! i) q) (MaxDistance (settings p))
          then [getMidpointNode fl p (nodes p ! i) q False] else [])"

definition splitEdges_once ::
  "(real \<Rightarrow> real) \<Rightarrow> (real \<Rightarrow> real \<Rightarrow> bool) \<Rightarrow> path \<Rightarrow> path" where
  "splitEdges_once fl tooLong p =
     p\<lparr>nodes :=
         concat (map (\<lambda>i. (if i = 0 then [] else midpointBefore fl tooLong i p) @ [nodes p ! i])
                     [0..<length (nodes p)])
         @ (if nodes p = [] then [] else midpointBefore fl tooLong 0 p)\<rparr>"

definition splitEdges_claimed :: "(real \<Rightarrow> real) \<Rightarrow> path \<Rightarrow> path" where
  "splitEdges_claimed fl p = splitEdges_once fl (\<lambda>d m. d > m) p"

definition splitEdges_amended :: "(real \<Rightarrow> real) \<Rightarrow> path \<Rightarrow> path" where
  "splitEdges_amended fl p = splitEdges_once fl (\<lambda>d m. d \<ge> m) p"

text \<open>The same pass along a list of nodes, \<open>q\<close> being the node before the list.\<close>

fun insertMidpoints :: "(real \<Rightarrow> real) \<Rightarrow> path \<Rightarrow> node \<Rightarrow> node list \<Rightarrow> node list" where
  "insertMidpoints fl p q [] = []"
| "insertMidpoints fl p q (n # ns) =
     (if distance n q \<ge> MaxDistance (settings p)
      then [getMidpointNode fl p n q False, n] else [n]) @ insertMidpoints fl p n ns"

text \<open>
  A step keeps the array in place when it has the same length afterwards and every
  node that was fixed is fixed at the same index.
\<close>

definition keepsFixedInPlace :: "path \<Rightarrow> path \<Rightarrow> bool" where
  "keepsFixedInPlace p p' =
     (length (nodes p') = length (nodes p)
      \<and> (\<forall>j<length (nodes p). isFixed (nodes p ! j) \<longrightarrow> isFixed (nodes p' ! j)))"

section \<open>Repulsion as C1 states it\<close>

text \<open>
  The repulsion step in the words of C1, for comparison with \<open>applyRepulsion\<close>: each
  hit interpolates \<open>nextPosition\<close> away from the neighbour, starting from the current
  value of \<open>nextPosition\<close>.
\<close>

definition repel_claimed :: "nat \<Rightarrow> node \<Rightarrow> path \<Rightarrow> path" where
  "repel_claimed index other p =
     p\<lparr>nodes := (nodes p)[index := (nodes p ! index)\<lparr>nextPosition :=
        (lerp (fst (nextPosition (nodes p ! index))) (x other) (- RepulsionForce (settings p)),
         lerp (snd (nextPosition (nodes p ! index))) (y other) (- RepulsionForce (settings p)))\<rparr>]\<rparr>"

definition applyRepulsion_claimed ::
  "knn_query \<Rightarrow> nat \<Rightarrow> node list \<Rightarrow> path \<Rightarrow> js_error + path" where
  "applyRepulsion_claimed knn index tree p =
     (case nth_opt (nodes p) (int index) of
        None \<Rightarrow> Inl TypeError
      | Some n \<Rightarrow>
          (let neighbors = knn tree (x n) (y n) (repulsionRadius n * repulsionRadius n)
           in Inr (fold (repel_claimed index) neighbors p)))"

section \<open>The history buffer\<close>


lemma settings_addToHistory: "settings (addToHistory p) = settings p"
  by (simp add: addToHistory_def Let_def)

lemma nodeHistory_addToHistory:
  "nodeHistory (addToHistory p) =
     (if int (length (nodeHistory p)) = MaxHistorySize (settings p)
      then tl (nodeHistory p) else nodeHistory p) @ [nodes p]"
  by (simp add: addToHistory_def Let_def)

lemma recordHistory_gen:
  "1 \<le> MaxHistorySize (settings p) \<Longrightarrow>
   int (length (nodeHistory p)) \<le> MaxHistorySize (settings p) \<Longrightarrow>
   settings (recordHistory p snaps) = settings p \<and>
   nodeHistory (recordHistory p snaps) =
     drop (length (nodeHistory p) + length snaps - nat (MaxHistorySize (settings p)))
       (nodeHistory p @ snaps)"
proof (induction snaps arbitrary: p)
  case Nil
  then show ?case by simp
next
  case (Cons ns rest)
  let ?q = "addToHistory (p\<lparr>nodes := ns\<rparr>)"
  let ?M = "MaxHistorySize (settings p)"
  let ?H = "nodeHistory p"
  have s: "settings ?q = settings p" by (simp add: settings_addToHistory)
  show ?case
  proof (cases "int (length ?H) = ?M")
    case True
    then have ne: "?H \<noteq> []" using Cons.prems by auto
    have h: "nodeHistory ?q = tl ?H @ [ns]" using True by (simp add: nodeHistory_addToHistory)
    have len: "length (nodeHistory ?q) = length ?H" using ne h by simp
    have "int (length (nodeHistory ?q)) \<le> MaxHistorySize (settings ?q)"
      using len True s by simp
    from Cons.IH [of ?q] this Cons.prems s
    have ih: "settings (recordHistory ?q rest) = settings p \<and>
        nodeHistory (recordHistory ?q rest) =
          drop (length (nodeHistory ?q) + length rest - nat ?M) (nodeHistory ?q @ rest)"
      by simp
    have "drop (length ?H + length rest - nat ?M) ((tl ?H @ [ns]) @ rest)
        = drop (length ?H + length (ns # rest) - nat ?M) (?H @ ns # rest)"
      using ne True by (cases ?H) (simp_all add: Suc_diff_le)
    then show ?thesis using ih h len by simp
  next
    case False
    then have lt: "int (length ?H) < ?M" using Cons.prems by simp
    have h: "nodeHistory ?q = ?H @ [ns]" using False by (simp add: nodeHistory_addToHistory)
    have "int (length (nodeHistory ?q)) \<le> MaxHistorySize (settings ?q)"
      using lt h s by simp
    from Cons.IH [of ?q] this Cons.prems s
    have ih: "settings (recordHistory ?q rest) = settings p \<and>
        nodeHistory (recordHistory ?q rest) =
          drop (length (nodeHistory ?q) + length rest - nat ?M) (nodeHistory ?q @ rest)"
      by simp
    then show ?thesis using h by simp
  qed
qed

text \<open>
  C8, as stated, fails: \<open>addToHistory\<close> evicts only when the length equals
  \<open>MaxHistorySize\<close>. With a capacity of 0 the test holds for the empty history alone,
  where \<open>shift\<close> removes nothing, and the history grows with every call: after two
  calls from an empty history it holds two snapshots.
\<close>

theorem history_zero_capacity_counterexample:
  "nodeHistory ((examplePath [] False)\<lparr>settings := exampleSettings\<lparr>MaxHistorySize := 0\<rparr>\<rparr>) = []
   \<and> \<not> int (length (nodeHistory (recordHistory
        ((examplePath [] False)\<lparr>settings := exampleSettings\<lparr>MaxHistorySize := 0\<rparr>\<rparr>)
        [[exampleNode 0 0], [exampleNode 1 0]])))
      \<le> MaxHistorySize (settings
        ((examplePath [] False)\<lparr>settings := exampleSettings\<lparr>MaxHistorySize := 0\<rparr>\<rparr>))"
  by (simp add: examplePath_def newPath_def addToHistory_def Let_def)

text \<open>
  C8 (amended): for a capacity of at least 1 and an empty history at the start, after
  any number of calls of \<open>addToHistory\<close> the history holds at most \<open>MaxHistorySize\<close>
  snapshots; it holds the most recent ones in the order they were taken; and a further
  call at capacity drops the oldest snapshot and appends the new one.
\<close>

theorem history_bounded_fifo:
  assumes "nodeHistory p = []" and "1 \<le> MaxHistorySize (settings p)"
  shows "int (length (nodeHistory (recordHistory p snaps))) \<le> MaxHistorySize (settings p)
    \<and> nodeHistory (recordHistory p snaps)
        = drop (length snaps - nat (MaxHistorySize (settings p))) snaps
    \<and> nodeHistory (addToHistory (recordHistory p snaps))
        = (if int (length (nodeHistory (recordHistory p snaps))) = MaxHistorySize (settings p)
           then tl (nodeHistory (recordHistory p snaps))
           else nodeHistory (recordHistory p snaps)) @ [nodes (recordHistory p snaps)]"
proof -
  have g: "settings (recordHistory p snaps) = settings p \<and>
      nodeHistory (recordHistory p snaps)
        = drop (length snaps - nat (MaxHistorySize (settings p))) snaps"
    using recordHistory_gen [of p snaps] assms by simp
  then have "length (nodeHistory (recordHistory p snaps)) \<le> nat (MaxHistorySize (settings p))"
    by simp
  then have "int (length (nodeHistory (recordHistory p snaps))) \<le> MaxHistorySize (settings p)"
    using assms(2) by linarith
  then show ?thesis using g by (simp add: nodeHistory_addToHistory)
qed

theorem history_bounded_fifo_witness:
  "nodeHistory (examplePath [] False) = []
   \<and> 1 \<le> MaxHistorySize (settings (examplePath [] False))
   \<and> nodeHistory (recordHistory (examplePath [] False)
        [[exampleNode 0 0], [exampleNode 1 0], [exampleNode 2 0]])
      = [[exampleNode 1 0], [exampleNode 2 0]]
   \<and> nodeHistory (addToHistory (recordHistory (examplePath [] False)
        [[exampleNode 0 0], [exampleNode 1 0], [exampleNode 2 0]]))
      = [[exampleNode 2 0], [exampleNode 2 0]]"
proof -
  have a: "nodeHistory (examplePath [] False) = []"
    by (simp add: examplePath_def newPath_def)
  have b: "1 \<le> MaxHistorySize (settings (examplePath [] False))"
    by (simp add: examplePath_def newPath_def exampleSettings_def)
  have c: "nodes (recordHistory (examplePath [] False)
        [[exampleNode 0 0], [exampleNode 1 0], [exampleNode 2 0]]) = [exampleNode 2 0]"
    by (simp add: addToHistory_def Let_def)
  have m: "MaxHistorySize (settings (examplePath [] False)) = 2"
    by (simp add: examplePath_def newPath_def exampleSettings_def)
  show ?thesis
    using history_bounded_fifo [OF a b,
        of "[[exampleNode 0 0], [exampleNode 1 0], [exampleNode 2 0]]"] a b c
    by (simp add: m)
qed

section \<open>Inverted colours\<close>

text \<open>
  C10: \<open>toggleInvertedColors\<close> negates the flag, makes the current fill and stroke
  colour the inverted pair when the flag is now set and the plain pair otherwise,
  then runs \<open>setTraceMode\<close> with the unchanged trace flag (which writes the opacity
  255 into the two current colour objects), and changes neither the nodes nor the
  closed flag; toggling twice restores the flag and the plain or inverted pair the
  flag stands for.
\<close>

theorem toggleInvertedColors_swaps_colors:
  "toggleInvertedColors (st, p) =
     setTraceMode (traceMode p)
       (st, p\<lparr>invertedColors := \<not> invertedColors p,
              currentFillColor := (if invertedColors p then fillColor p else invertedFillColor p),
              currentStrokeColor :=
                (if invertedColors p then strokeColor p else invertedStrokeColor p)\<rparr>)
   \<and> invertedColors (snd (toggleInvertedColors (st, p))) = (\<not> invertedColors p)
   \<and> currentFillColor (snd (toggleInvertedColors (st, p))) =
       (if invertedColors p then fillColor p else invertedFillColor p)
   \<and> currentStrokeColor (snd (toggleInvertedColors (st, p))) =
       (if invertedColors p then strokeColor p else invertedStrokeColor p)
   \<and> fillColor (snd (toggleInvertedColors (st, p))) = fillColor p
   \<and> strokeColor (snd (toggleInvertedColors (st, p))) = strokeColor p
   \<and> invertedFillColor (snd (toggleInvertedColors (st, p))) = invertedFillColor p
   \<and> invertedStrokeColor (snd (toggleInvertedColors (st, p))) = invertedStrokeColor p
   \<and> traceMode (snd (toggleInvertedColors (st, p))) = traceMode p
   \<and> col_a (fst (toggleInvertedColors (st, p))
        (currentFillColor (snd (toggleInvertedColors (st, p))))) = 255
   \<and> col_a (fst (toggleInvertedColors (st, p))
        (currentStrokeColor (snd (toggleInvertedColors (st, p))))) = 255
   \<and> nodes (snd (toggleInvertedColors (st, p))) = nodes p
   \<and> isClosed (snd (toggleInvertedColors (st, p))) = isClosed p
   \<and> snd (toggleInvertedColors (toggleInvertedColors (st, p))) = 
       p\<lparr>currentFillColor := (if invertedColors p then invertedFillColor p else fillColor p),
         currentStrokeColor := (if invertedColors p then invertedStrokeColor p else strokeColor p)\<rparr>"
  by (simp add: toggleInvertedColors_def setInvertedColors_def setTraceMode_def
      getInvertedColors_def Let_def)

theorem toggleInvertedColors_example:
  "toggleInvertedColors (exampleStore, examplePath [exampleNode 0 0, exampleNode 0 30] False)
     = (exampleStore (0 := \<lparr> col_h = 0, col_s = 0, col_b = 0, col_a = 255 \<rparr>,
                      1 := \<lparr> col_h = 0, col_s = 0, col_b = 0, col_a = 255 \<rparr>),
        (examplePath [exampleNode 0 0, exampleNode 0 30] False)
          \<lparr>invertedColors := False, currentFillColor := 0, currentStrokeColor := 1\<rparr>)"
proof -
  note t = toggleInvertedColors_swaps_colors
    [of exampleStore "examplePath [exampleNode 0 0, exampleNode 0 30] False", THEN conjunct1]
  show ?thesis
    by (subst t)
      (simp add: setTraceMode_def examplePath_def newPath_def exampleSettings_def
        exampleStore_def Let_def fun_eq_iff)
qed

section \<open>Forces on a single node\<close>

lemma nth_opt_in_range: "index < length xs \<Longrightarrow> nth_opt xs (int index) = Some (xs ! index)"
  by (simp add: nth_opt_def)

lemma repel_again:
  "repel index m (p\<lparr>nodes := (nodes p)[index := (nodes p ! index)\<lparr>nextPosition := np\<rparr>]\<rparr>)
     = repel index m p"
  by (cases "index < length (nodes p)") (simp_all add: repel_def list_update_beyond)

lemma fold_repel_shape:
  "\<exists>np. fold (repel index) hits p
          = p\<lparr>nodes := (nodes p)[index := (nodes p ! index)\<lparr>nextPosition := np\<rparr>]\<rparr>"
proof (induction hits rule: rev_induct)
  case Nil
  have "p = p\<lparr>nodes := (nodes p)[index := (nodes p ! index)\<lparr>nextPosition := nextPosition (nodes p ! index)\<rparr>]\<rparr>"
    by simp
  then show ?case by (metis fold_simps(1))
next
  case (snoc m hits)
  then obtain np where
    "fold (repel index) hits p
       = p\<lparr>nodes := (nodes p)[index := (nodes p ! index)\<lparr>nextPosition := np\<rparr>]\<rparr>" by blast
  then have "fold (repel index) (hits @ [m]) p = repel index m p"
    by (simp add: repel_again)
  then show ?case unfolding repel_def by blast
qed

lemma fold_repel_last:
  "fold (repel index) hits p = (if hits = [] then p else repel index (last hits) p)"
proof (cases hits rule: rev_cases)
  case Nil
  then show ?thesis by simp
next
  case (snoc front m)
  obtain np where
    "fold (repel index) front p
       = p\<lparr>nodes := (nodes p)[index := (nodes p ! index)\<lparr>nextPosition := np\<rparr>]\<rparr>"
    using fold_repel_shape by blast
  then show ?thesis using snoc by (simp add: repel_again)
qed

lemma applyRepulsion_last_hit:
  "index < length (nodes p) \<Longrightarrow>
   applyRepulsion knn index tree p =
     Inr (let hits = knn tree (x (nodes p ! index)) (y (nodes p ! index))
                       (repulsionRadius (nodes p ! index) * repulsionRadius (nodes p ! index))
          in if hits = [] then p else repel index (last hits) p)"
  by (simp add: applyRepulsion_def nth_opt_in_range fold_repel_last Let_def)

lemma attractTo_fixed:
  "index < length (nodes p) \<Longrightarrow> isFixed (nodes p ! index) \<Longrightarrow> attractTo index nb p = Inr p"
  by (simp add: attractTo_def nth_opt_in_range split: option.splits)

lemma applyAttraction_fixed:
  "index < length (nodes p) \<Longrightarrow> isFixed (nodes p ! index) \<Longrightarrow> applyAttraction index p = Inr p"
  by (simp add: applyAttraction_def attractTo_fixed Let_def)

lemma applyAlignment_fixed:
  "index < length (nodes p) \<Longrightarrow> isFixed (nodes p ! index) \<Longrightarrow> applyAlignment fl index p = Inr p"
  by (simp add: applyAlignment_def nth_opt_in_range Let_def split: option.splits)

lemma set_fixed_again: "isFixed n \<Longrightarrow> n\<lparr>isFixed := True\<rparr> = n"
  by (cases n) simp

lemma applyBounds_fixed:
  "index < length (nodes p) \<Longrightarrow> isFixed (nodes p ! index) \<Longrightarrow> applyBounds cont index p = Inr p"
  by (simp add: applyBounds_def nth_opt_in_range set_fixed_again split: option.splits)

lemma applyBrownianMotion_in_range:
  "index < length (nodes p) \<Longrightarrow>
   applyBrownianMotion index rx ry p =
     Inr (p\<lparr>nodes := (nodes p)[index := (nodes p ! index)
            \<lparr>x := x (nodes p ! index) + rx, y := y (nodes p ! index) + ry\<rparr>]\<rparr>)"
  by (simp add: applyBrownianMotion_def nth_opt_in_range)

text \<open>
  C1, evaluated. The node at index 0 stands at (0, 0) and its \<open>nextPosition\<close> is
  (2, 0), as after an attraction step towards its neighbour at (10, 0); the index holds
  this node, the neighbour, and a node of another path at (0, 20); all three lie within
  the repulsion radius 30. \<open>applyRepulsion\<close> assigns \<open>lerp(x, node.x, -RepulsionForce)\<close>,
  interpolating from the current position, once per hit: each hit overwrites the one
  before and the value \<open>nextPosition\<close> had, and the result (0, -12) is the push away
  from the last hit alone. Starting from \<open>nextPosition\<close>, as C1 has it and as
  attraction and alignment do, the three hits give (-176/125, -12).
\<close>

theorem applyRepulsion_keeps_last_hit_only:
  "applyRepulsion knnWithin 0 [exampleNode 0 0, exampleNode 10 0, exampleNode 0 20]
       (examplePath [(exampleNode 0 0)\<lparr>nextPosition := (2, 0)\<rparr>, exampleNode 10 0] False)
     = Inr (examplePath [(exampleNode 0 0)\<lparr>nextPosition := (0, - 12)\<rparr>, exampleNode 10 0] False)
   \<and> applyRepulsion_claimed knnWithin 0 [exampleNode 0 0, exampleNode 10 0, exampleNode 0 20]
       (examplePath [(exampleNode 0 0)\<lparr>nextPosition := (2, 0)\<rparr>, exampleNode 10 0] False)
     = Inr (examplePath [(exampleNode 0 0)\<lparr>nextPosition := (- 176 / 125, - 12)\<rparr>,
                         exampleNode 10 0] False)
   \<and> applyRepulsion knnWithin 0 [exampleNode 0 0, exampleNode 10 0, exampleNode 0 20]
       (examplePath [(exampleNode 0 0)\<lparr>nextPosition := (2, 0)\<rparr>, exampleNode 10 0] False)
     \<noteq> applyRepulsion_claimed knnWithin 0 [exampleNode 0 0, exampleNode 10 0, exampleNode 0 20]
       (examplePath [(exampleNode 0 0)\<lparr>nextPosition := (2, 0)\<rparr>, exampleNode 10 0] False)"
proof -
  let ?p = "examplePath [(exampleNode 0 0)\<lparr>nextPosition := (2, 0)\<rparr>, exampleNode 10 0] False"
  let ?tree = "[exampleNode 0 0, exampleNode 10 0, exampleNode 0 20]"
  have n: "nth_opt (nodes ?p) (int 0) = Some ((exampleNode 0 0)\<lparr>nextPosition := (2, 0)\<rparr>)"
    by (simp add: nth_opt_def examplePath_def newPath_def)
  have k: "knnWithin ?tree (x (exampleNode 0 0)) (y (exampleNode 0 0))
       (repulsionRadius (exampleNode 0 0) * repulsionRadius (exampleNode 0 0)) = ?tree"
    by (simp add: knnWithin_def exampleNode_def newNode_def exampleSettings_def)
  have a: "applyRepulsion knnWithin 0 ?tree ?p = Inr (fold (repel 0) ?tree ?p)"
    unfolding applyRepulsion_def n by (simp add: k)
  have b: "applyRepulsion_claimed knnWithin 0 ?tree ?p = Inr (fold (repel_claimed 0) ?tree ?p)"
    unfolding applyRepulsion_claimed_def n by (simp add: k)
  show ?thesis
    unfolding a b
    by (simp add: repel_def repel_claimed_def examplePath_def newPath_def exampleNode_def
        newNode_def exampleSettings_def lerp_def)
qed

text \<open>
  C5, as stated, fails in its first sentence: jitter adds its offsets to the current
  position of a fixed node, which moves.
\<close>

theorem fixed_node_moved_by_jitter_counterexample:
  "isFixed (nodes (examplePath [(exampleNode 0 0)\<lparr>isFixed := True\<rparr>, exampleNode 10 0] False) ! 0)
   \<and> x (nodes (examplePath [(exampleNode 0 0)\<lparr>isFixed := True\<rparr>, exampleNode 10 0] False) ! 0) = 0
   \<and> applyBrownianMotion 0 (1 / 400) (- 1 / 400)
        (examplePath [(exampleNode 0 0)\<lparr>isFixed := True\<rparr>, exampleNode 10 0] False)
      = Inr (examplePath [(exampleNode 0 0)\<lparr>isFixed := True, x := 1 / 400, y := - 1 / 400\<rparr>,
                          exampleNode 10 0] False)"
  by (simp add: applyBrownianMotion_def nth_opt_def examplePath_def newPath_def exampleNode_def
      newNode_def)

text \<open>
  C5 (amended): for a node with \<open>isFixed\<close> set, attraction, alignment and the bounds
  check leave the path as it is; jitter still shifts the node's current position by its
  two random offsets, and repulsion still overwrites its \<open>nextPosition\<close> whenever the
  radius query has a hit. Jitter and repulsion are the only forces acting on a fixed
  node.
\<close>

theorem fixed_node_forces:
  assumes "index < length (nodes p)" and "isFixed (nodes p ! index)"
  shows "applyAttraction index p = Inr p
    \<and> applyAlignment fl index p = Inr p
    \<and> applyBounds cont index p = Inr p
    \<and> applyBrownianMotion index rx ry p =
        Inr (p\<lparr>nodes := (nodes p)[index := (nodes p ! index)
               \<lparr>x := x (nodes p ! index) + rx, y := y (nodes p ! index) + ry\<rparr>]\<rparr>)
    \<and> applyRepulsion knn index tree p =
        Inr (let hits = knn tree (x (nodes p ! index)) (y (nodes p ! index))
                          (repulsionRadius (nodes p ! index) * repulsionRadius (nodes p ! index))
             in if hits = [] then p else repel index (last hits) p)"
  using assms
  by (simp only: applyAttraction_fixed applyAlignment_fixed applyBounds_fixed
      applyBrownianMotion_in_range applyRepulsion_last_hit simp_thms)

theorem fixed_node_forces_witness:
  "0 < length (nodes (examplePath [(exampleNode 0 0)\<lparr>isFixed := True\<rparr>, exampleNode 10 0] False))
   \<and> isFixed (nodes (examplePath [(exampleNode 0 0)\<lparr>isFixed := True\<rparr>, exampleNode 10 0] False) ! 0)
   \<and> applyAttraction 0 (examplePath [(exampleNode 0 0)\<lparr>isFixed := True\<rparr>, exampleNode 10 0] False)
      = Inr (examplePath [(exampleNode 0 0)\<lparr>isFixed := True\<rparr>, exampleNode 10 0] False)
   \<and> applyAlignment exampleRound 0 (examplePath [(exampleNode 0 0)\<lparr>isFixed := True\<rparr>, exampleNode 10 0] False)
      = Inr (examplePath [(exampleNode 0 0)\<lparr>isFixed := True\<rparr>, exampleNode 10 0] False)
   \<and> applyBrownianMotion 0 (1 / 400) (- 1 / 400)
        (examplePath [(exampleNode 0 0)\<lparr>isFixed := True\<rparr>, exampleNode 10 0] False)
      = Inr (examplePath [(exampleNode 0 0)\<lparr>isFixed := True, x := 1 / 400, y := - 1 / 400\<rparr>,
                          exampleNode 10 0] False)
   \<and> applyRepulsion knnWithin 0 [exampleNode 0 0, exampleNode 10 0]
        (examplePath [(exampleNode 0 0)\<lparr>isFixed := True\<rparr>, exampleNode 10 0] False)
      = Inr (examplePath [(exampleNode 0 0)\<lparr>isFixed := True, nextPosition := (- 6, 0)\<rparr>,
                          exampleNode 10 0] False)"
proof -
  let ?p = "examplePath [(exampleNode 0 0)\<lparr>isFixed := True\<rparr>, exampleNode 10 0] False"
  have a: "0 < length (nodes ?p)" by (simp add: examplePath_def newPath_def)
  have b: "isFixed (nodes ?p ! 0)" by (simp add: examplePath_def newPath_def)
  have k: "knnWithin [exampleNode 0 0, exampleNode 10 0] (x (nodes ?p ! 0)) (y (nodes ?p ! 0))
       (repulsionRadius (nodes ?p ! 0) * repulsionRadius (nodes ?p ! 0))
     = [exampleNode 0 0, exampleNode 10 0]"
    by (simp add: knnWithin_def examplePath_def newPath_def exampleNode_def newNode_def
        exampleSettings_def)
  note t = fixed_node_forces [OF a b, where fl = exampleRound and cont = "\<lambda>b q. True"
      and rx = "1 / 400" and ry = "- 1 / 400" and knn = knnWithin
      and tree = "[exampleNode 0 0, exampleNode 10 0]"]
  have r: "repel 0 (exampleNode 10 0) ?p
     = examplePath [(exampleNode 0 0)\<lparr>isFixed := True, nextPosition := (- 6, 0)\<rparr>,
                          exampleNode 10 0] False"
    by (simp add: repel_def examplePath_def newPath_def exampleNode_def newNode_def
        exampleSettings_def lerp_def)
  have m: "?p\<lparr>nodes := (nodes ?p)[0 := (nodes ?p ! 0)
               \<lparr>x := x (nodes ?p ! 0) + 1 / 400, y := y (nodes ?p ! 0) + - 1 / 400\<rparr>]\<rparr>
     = examplePath [(exampleNode 0 0)\<lparr>isFixed := True, x := 1 / 400, y := - 1 / 400\<rparr>,
                          exampleNode 10 0] False"
    by (simp add: examplePath_def newPath_def exampleNode_def newNode_def)
  show ?thesis
    using t a b unfolding k m by (simp add: r)
qed

section \<open>Injection by curvature\<close>

lemma js_round_half_pi: "js_round (pi / 2) = 2"
proof -
  have "sin (pi / 6) \<le> pi / 6" by (rule sin_x_le_x) simp
  then have "3 \<le> pi" by (simp add: sin_30)
  moreover have "pi < 4" using pi_less_4 by simp
  ultimately show ?thesis unfolding js_round_def by linarith
qed

lemma js_round_abs_arctan: "js_round \<bar>arctan z\<bar> \<le> 2"
proof -
  have "\<bar>arctan z\<bar> < pi / 2"
    using arctan_lbound [of z] arctan_ubound [of z] by linarith
  moreover have "pi < 4" using pi_less_4 by simp
  ultimately have "\<bar>arctan z\<bar> + 1 / 2 < 3" by linarith
  then show ?thesis unfolding js_round_def by linarith
qed

lemma curvatureAngle_at_most_2: "curvatureAngle n d = Some a \<Longrightarrow> a \<le> 2"
  using js_round_abs_arctan [of "n / d"]
  by (auto simp: curvatureAngle_def js_round_half_pi split: if_splits)

lemma curvatureAngle_not_greater_20: "\<not> js_greater (curvatureAngle n d) 20"
  using curvatureAngle_at_most_2 [of n d]
  by (cases "curvatureAngle n d") (auto simp: js_greater_def)

lemma injectNodeByCurvature_body_id: "injectNodeByCurvature_body fl index p = p"
  by (simp add: injectNodeByCurvature_body_def Let_def curvatureAngle_not_greater_20
      split: option.splits)

lemma injectNodeByCurvature_loop_id: "injectNodeByCurvature_loop fl index p = Some p"
proof (induction "length (nodes p) - index" arbitrary: index)
  case 0
  then show ?case by (subst injectNodeByCurvature_loop.simps) simp
next
  case (Suc k)
  then have "injectNodeByCurvature_loop fl (index + 1) p = Some p" by simp
  then show ?case
    by (subst injectNodeByCurvature_loop.simps) (simp add: injectNodeByCurvature_body_id)
qed

text \<open>
  C6: a call of \<open>injectNodeByCurvature\<close> returns and leaves the path, and so the node
  sequence, unchanged: the angle is never greater than 20, and whenever it is a number
  it is at most 2.
\<close>

theorem injectNodeByCurvature_is_noop:
  "injectNodeByCurvature fl p = Some p
   \<and> \<not> js_greater (curvatureAngle n d) 20
   \<and> (case curvatureAngle n d of None \<Rightarrow> True | Some a \<Rightarrow> a \<le> 2)"
  using curvatureAngle_at_most_2 [of n d]
  by (simp add: injectNodeByCurvature_def injectNodeByCurvature_loop_id
      curvatureAngle_not_greater_20 split: option.splits)

theorem injectNodeByCurvature_is_noop_example:
  "injectNodeByCurvature exampleRound (examplePath [exampleNode 0 0, exampleNode 10 0, exampleNode 10 10] True)
     = Some (examplePath [exampleNode 0 0, exampleNode 10 0, exampleNode 10 10] True)"
  using injectNodeByCurvature_is_noop
    [of exampleRound "examplePath [exampleNode 0 0, exampleNode 10 0, exampleNode 10 10] True" 0 0]
  by simp

text \<open>
  C9: the open path through (0, 0), (5, 5) and (0, 10) is a state in which the two
  neighbours of the node at index 1 share their x-coordinate. The divisor of the angle
  is 0, the angle is \<open>round(\<pi>/2) = 2\<close>, no error is raised, and both the loop body at
  index 1 and the whole call return the path unchanged.
\<close>

theorem curvature_division_by_zero_tolerated:
  "fst (getConnectedNodes 1 (examplePath [exampleNode 0 0, exampleNode 5 5, exampleNode 0 10] False))
     = Some (exampleNode 0 0)
   \<and> snd (getConnectedNodes 1 (examplePath [exampleNode 0 0, exampleNode 5 5, exampleNode 0 10] False))
     = Some (exampleNode 0 10)
   \<and> x (exampleNode 0 10) - x (exampleNode 0 0) = 0
   \<and> curvatureAngle (y (exampleNode 0 10) - y (exampleNode 0 0))
        (x (exampleNode 0 10) - x (exampleNode 0 0)) = Some 2
   \<and> injectNodeByCurvature_body exampleRound 1
        (examplePath [exampleNode 0 0, exampleNode 5 5, exampleNode 0 10] False)
     = examplePath [exampleNode 0 0, exampleNode 5 5, exampleNode 0 10] False
   \<and> injectNodeByCurvature exampleRound
        (examplePath [exampleNode 0 0, exampleNode 5 5, exampleNode 0 10] False)
     = Some (examplePath [exampleNode 0 0, exampleNode 5 5, exampleNode 0 10] False)"
proof -
  let ?p = "examplePath [exampleNode 0 0, exampleNode 5 5, exampleNode 0 10] False"
  have c: "getConnectedNodes 1 ?p = (Some (exampleNode 0 0), Some (exampleNode 0 10))"
    by (simp add: getConnectedNodes_def examplePath_def newPath_def nth_opt_def Let_def)
  have a: "curvatureAngle (y (exampleNode 0 10) - y (exampleNode 0 0))
        (x (exampleNode 0 10) - x (exampleNode 0 0)) = Some 2"
    by (simp add: curvatureAngle_def exampleNode_def newNode_def js_round_half_pi)
  have b: "injectNodeByCurvature_body exampleRound 1 ?p = ?p"
    by (rule injectNodeByCurvature_body_id)
  have l: "injectNodeByCurvature exampleRound ?p = Some ?p"
    by (simp add: injectNodeByCurvature_def injectNodeByCurvature_loop_id)
  show ?thesis using c a b l by (simp add: exampleNode_def newNode_def)
qed

section \<open>Pruning\<close>

lemma fst_getConnectedNodes:
  "index < length (nodes p) \<Longrightarrow>
   fst (getConnectedNodes index p) =
     (if index = 0 then (if isClosed p then Some (nodes p ! (length (nodes p) - 1)) else None)
      else Some (nodes p ! (index - 1)))"
  by (auto simp: getConnectedNodes_def nth_opt_def Let_def nat_diff_distrib' of_nat_diff)

lemma splice_remove: "splice_js xs j (Suc 0) [] = take j xs @ drop (Suc j) xs"
  by (simp add: splice_js_def)

lemma subseq_drop_Suc: "subseq (drop (Suc j) xs) (drop j xs)"
proof (cases "drop j xs")
  case Nil
  then show ?thesis by simp
next
  case (Cons a ys)
  then have "drop (Suc j) xs = ys" by (metis drop_Suc list.sel(3) tl_drop)
  moreover have "subseq ys (a # ys)" by (rule list_emb_Cons) simp
  ultimately show ?thesis using Cons by simp
qed

lemma subseq_remove: "subseq (take j xs @ drop (Suc j) xs) xs"
proof -
  have "subseq (take j xs @ drop (Suc j) xs) (take j xs @ drop j xs)"
    unfolding subseq_append' by (rule subseq_drop_Suc)
  then show ?thesis by simp
qed

lemma filter_remove:
  "j < length xs \<Longrightarrow> \<not> P (xs ! j) \<Longrightarrow>
   filter P (take j xs) @ filter P (drop (Suc j) xs) = filter P xs"
proof -
  assume a: "j < length xs" "\<not> P (xs ! j)"
  then have "xs = take j xs @ xs ! j # drop (Suc j) xs" by (simp add: id_take_nth_drop)
  then have "filter P xs = filter P (take j xs) @ filter P (xs ! j # drop (Suc j) xs)"
    by (metis filter_append)
  then show ?thesis using a by simp
qed

text \<open>The loop body either does nothing or removes one previous neighbour.\<close>

lemma pruneNodes_body_cases:
  assumes "index < length (nodes q)"
  shows "pruneNodes_body index q = q \<or>
    (\<exists>j<length (nodes q). fst (getConnectedNodes index q) = Some (nodes q ! j)
       \<and> distance (nodes q ! index) (nodes q ! j) < MinDistance (settings q)
       \<and> \<not> isFixed (nodes q ! j)
       \<and> pruneNodes_body index q = q\<lparr>nodes := take j (nodes q) @ drop (Suc j) (nodes q)\<rparr>)"
proof (cases "index = 0")
  case True
  show ?thesis
  proof (cases "isClosed q
      \<and> distance (nodes q ! index) (nodes q ! (length (nodes q) - 1)) < MinDistance (settings q)
      \<and> \<not> isFixed (nodes q ! (length (nodes q) - 1))")
    case c: True
    have "length (nodes q) - 1 < length (nodes q)" using assms by simp
    moreover have "pruneNodes_body index q =
        q\<lparr>nodes := take (length (nodes q) - 1) (nodes q) @ drop (Suc (length (nodes q) - 1)) (nodes q)\<rparr>"
      using c True assms
      by (simp add: pruneNodes_body_def fst_getConnectedNodes splice_remove Let_def)
    ultimately show ?thesis using c True assms fst_getConnectedNodes [of index q]
      by (intro disjI2 exI [of _ "length (nodes q) - 1"]) simp
  next
    case False
    then have "pruneNodes_body index q = q"
      using True assms by (auto simp: pruneNodes_body_def fst_getConnectedNodes Let_def)
    then show ?thesis by simp
  qed
next
  case nz: False
  show ?thesis
  proof (cases "distance (nodes q ! index) (nodes q ! (index - 1)) < MinDistance (settings q)
      \<and> \<not> isFixed (nodes q ! (index - 1))")
    case c: True
    have "index - 1 < length (nodes q)" using assms by simp
    moreover have "pruneNodes_body index q =
        q\<lparr>nodes := take (index - 1) (nodes q) @ drop (Suc (index - 1)) (nodes q)\<rparr>"
      using c nz assms
      by (simp add: pruneNodes_body_def fst_getConnectedNodes splice_remove Let_def)
    ultimately show ?thesis using c nz assms fst_getConnectedNodes [of index q]
      by (intro disjI2 exI [of _ "index - 1"]) simp
  next
    case False
    then have "pruneNodes_body index q = q"
      using nz assms by (auto simp: pruneNodes_body_def fst_getConnectedNodes Let_def)
    then show ?thesis by simp
  qed
qed

lemma pruneNodes_body_props:
  assumes "index < length (nodes p)"
  shows "subseq (nodes (pruneNodes_body index p)) (nodes p)
    \<and> filter isFixed (nodes (pruneNodes_body index p)) = filter isFixed (nodes p)
    \<and> pruneNodes_body index p = p\<lparr>nodes := nodes (pruneNodes_body index p)\<rparr>"
  using pruneNodes_body_cases [OF assms]
  by (auto simp: subseq_remove filter_remove)

lemma pruneNodes_loop_props:
  "subseq (nodes (pruneNodes_loop index p)) (nodes p)
    \<and> filter isFixed (nodes (pruneNodes_loop index p)) = filter isFixed (nodes p)
    \<and> pruneNodes_loop index p = p\<lparr>nodes := nodes (pruneNodes_loop index p)\<rparr>"
proof (induction index p rule: pruneNodes_loop.induct)
  case (1 index p)
  show ?case
  proof (cases "index < length (nodes p)")
    case True
    let ?q = "pruneNodes_body index p"
    have l: "pruneNodes_loop index p = pruneNodes_loop (index + 1) ?q"
      using True by (subst pruneNodes_loop.simps) simp
    note ih = "1.IH" [OF True]
    note b = pruneNodes_body_props [OF True]
    have "subseq (nodes (pruneNodes_loop index p)) (nodes p)"
      using ih b l by (metis subseq_order.order_trans)
    moreover have "filter isFixed (nodes (pruneNodes_loop index p)) = filter isFixed (nodes p)"
      using ih b l by simp
    moreover have "pruneNodes_loop index p = p\<lparr>nodes := nodes (pruneNodes_loop index p)\<rparr>"
    proof -
      have "pruneNodes_loop index p = ?q\<lparr>nodes := nodes (pruneNodes_loop index p)\<rparr>"
        using ih l by simp
      also have "\<dots> = (p\<lparr>nodes := nodes ?q\<rparr>)\<lparr>nodes := nodes (pruneNodes_loop index p)\<rparr>"
        using b by simp
      finally show ?thesis by simp
    qed
    ultimately show ?thesis by blast
  next
    case False
    then have "pruneNodes_loop index p = p" by (subst pruneNodes_loop.simps) simp
    then show ?thesis by simp
  qed
qed

lemma length_pruneNodes_loop: "length (nodes (pruneNodes_loop index p)) \<le> length (nodes p)"
  using pruneNodes_loop_props [of index p] by (metis list_emb_length)

lemma pruneNodes_body_keeps:
  "index < length (nodes p) \<Longrightarrow> far_enough index p \<Longrightarrow> pruneNodes_body index p = p"
  by (auto simp: far_enough_def pruneNodes_body_def fst_getConnectedNodes Let_def
      split: if_splits)

lemma pruneNodes_body_shrinks:
  assumes "index < length (nodes p)" and "\<not> far_enough index p"
  shows "Suc (length (nodes (pruneNodes_body index p))) = length (nodes p)"
  using assms
  by (auto simp: far_enough_def pruneNodes_body_def fst_getConnectedNodes Let_def splice_remove
      split: if_splits)

lemma pruneNodes_loop_keeps:
  "(\<forall>i. index \<le> i \<and> i < length (nodes p) \<longrightarrow> far_enough i p) \<Longrightarrow> pruneNodes_loop index p = p"
proof (induction index p rule: pruneNodes_loop.induct)
  case (1 index p)
  show ?case
  proof (cases "index < length (nodes p)")
    case True
    then have b: "pruneNodes_body index p = p" using "1.prems" pruneNodes_body_keeps by simp
    have "pruneNodes_loop (index + 1) (pruneNodes_body index p) = pruneNodes_body index p"
      using "1.IH" [OF True] "1.prems" b by simp
    then show ?thesis using True b by (subst pruneNodes_loop.simps) simp
  next
    case False
    then show ?thesis by (subst pruneNodes_loop.simps) simp
  qed
qed

lemma pruneNodes_loop_shrinks:
  "index \<le> i \<Longrightarrow> i < length (nodes p) \<Longrightarrow> \<not> far_enough i p \<Longrightarrow>
   length (nodes (pruneNodes_loop index p)) < length (nodes p)"
proof (induction index p rule: pruneNodes_loop.induct)
  case (1 index p)
  have lt: "index < length (nodes p)" using "1.prems" by simp
  have l: "pruneNodes_loop index p = pruneNodes_loop (index + 1) (pruneNodes_body index p)"
    using lt by (subst pruneNodes_loop.simps) simp
  show ?case
  proof (cases "far_enough index p")
    case True
    then have b: "pruneNodes_body index p = p" using lt pruneNodes_body_keeps by simp
    have "index + 1 \<le> i" using True "1.prems" by (cases "index = i") auto
    then show ?thesis using "1.IH" [OF lt] "1.prems" b l by simp
  next
    case False
    have "length (nodes (pruneNodes_loop (index + 1) (pruneNodes_body index p)))
        \<le> length (nodes (pruneNodes_body index p))" by (rule length_pruneNodes_loop)
    then show ?thesis using pruneNodes_body_shrinks [OF lt False] l by simp
  qed
qed

lemma pruneNodes_fixpoint:
  "(pruneNodes p = p) = (\<forall>i<length (nodes p). far_enough i p)"
proof
  assume e: "pruneNodes p = p"
  show "\<forall>i<length (nodes p). far_enough i p"
  proof (intro allI impI)
    fix i assume "i < length (nodes p)"
    show "far_enough i p"
    proof (rule ccontr)
      assume "\<not> far_enough i p"
      then have "length (nodes (pruneNodes_loop 0 p)) < length (nodes p)"
        using pruneNodes_loop_shrinks [of 0 i p] \<open>i < length (nodes p)\<close> by simp
      then show False using e by (simp add: pruneNodes_def)
    qed
  qed
next
  assume "\<forall>i<length (nodes p). far_enough i p"
  then show "pruneNodes p = p" by (simp add: pruneNodes_def pruneNodes_loop_keeps)
qed

lemma distance_same_y: "y a = y b \<Longrightarrow> distance a b = \<bar>x b - x a\<bar>"
  by (simp add: distance_def)

lemma distance_same_x: "x a = x b \<Longrightarrow> distance a b = \<bar>y b - y a\<bar>"
  by (simp add: distance_def)

lemmas example_defs = examplePath_def newPath_def exampleNode_def newNode_def exampleSettings_def

text \<open>
  C4, as stated, fails: one call of \<open>pruneNodes\<close> does not establish the distance
  bound. On the open path through (0, 0), (11, 0) and (5, 0), with \<open>MinDistance = 10\<close>
  and no node fixed, the node (5, 0) is 6 away from its previous neighbour (11, 0),
  which is removed; the loop ends, and the nodes (0, 0) and (5, 0), now adjacent, are
  5 apart.
\<close>

theorem pruneNodes_leaves_close_pair_counterexample:
  "pruneNodes (examplePath [exampleNode 0 0, exampleNode 11 0, exampleNode 5 0] False)
     = examplePath [exampleNode 0 0, exampleNode 5 0] False
   \<and> \<not> isFixed (exampleNode 0 0) \<and> \<not> isFixed (exampleNode 5 0)
   \<and> distance (exampleNode 5 0) (exampleNode 0 0) = 5
   \<and> MinDistance (settings (examplePath [exampleNode 0 0, exampleNode 5 0] False)) = 10"
  by (simp add: pruneNodes_def pruneNodes_loop.simps pruneNodes_body_def getConnectedNodes_def
      nth_opt_def splice_js_def distance_same_y Let_def example_defs)

text \<open>
  C4 (amended): \<open>pruneNodes\<close> only removes nodes (the result is a subsequence of the
  nodes, nothing else of the path changes), never a fixed one (the fixed nodes are the
  same, in the same order); every step of its loop either leaves the path as it is or
  removes the previous neighbour of the node visited, that neighbour being closer than
  \<open>MinDistance\<close> to the node and not fixed; and the call leaves the path unchanged
  exactly when every node is at least \<open>MinDistance\<close> away from its previous neighbour
  or that neighbour is fixed.
\<close>

theorem pruneNodes_removes_only_close_unfixed_predecessors:
  "subseq (nodes (pruneNodes p)) (nodes p)
   \<and> filter isFixed (nodes (pruneNodes p)) = filter isFixed (nodes p)
   \<and> pruneNodes p = p\<lparr>nodes := nodes (pruneNodes p)\<rparr>
   \<and> (pruneNodes p = p) = (\<forall>i<length (nodes p). far_enough i p)
   \<and> (index < length (nodes q) \<longrightarrow>
        pruneNodes_body index q = q \<or>
        (\<exists>j<length (nodes q). fst (getConnectedNodes index q) = Some (nodes q ! j)
           \<and> distance (nodes q ! index) (nodes q ! j) < MinDistance (settings q)
           \<and> \<not> isFixed (nodes q ! j)
           \<and> pruneNodes_body index q = q\<lparr>nodes := take j (nodes q) @ drop (Suc j) (nodes q)\<rparr>))"
  using pruneNodes_loop_props [of 0 p] pruneNodes_fixpoint [of p] pruneNodes_body_cases [of index q]
  unfolding pruneNodes_def by blast

theorem pruneNodes_removes_only_close_unfixed_predecessors_witness:
  "2 < length (nodes (examplePath [exampleNode 0 0, exampleNode 11 0, exampleNode 5 0] False))
   \<and> nodes (pruneNodes (examplePath [exampleNode 0 0, exampleNode 11 0, exampleNode 5 0] False))
       = [exampleNode 0 0, exampleNode 5 0]
   \<and> subseq [exampleNode 0 0, exampleNode 5 0] [exampleNode 0 0, exampleNode 11 0, exampleNode 5 0]
   \<and> \<not> far_enough 2 (examplePath [exampleNode 0 0, exampleNode 11 0, exampleNode 5 0] False)
   \<and> pruneNodes_body 2 (examplePath [exampleNode 0 0, exampleNode 11 0, exampleNode 5 0] False)
       = examplePath [exampleNode 0 0, exampleNode 5 0] False
   \<and> pruneNodes (examplePath
         [exampleNode 0 0, (exampleNode 11 0)\<lparr>isFixed := True\<rparr>, exampleNode 5 0] False)
       = examplePath [exampleNode 0 0, (exampleNode 11 0)\<lparr>isFixed := True\<rparr>, exampleNode 5 0] False
   \<and> far_enough 2 (examplePath
         [exampleNode 0 0, (exampleNode 11 0)\<lparr>isFixed := True\<rparr>, exampleNode 5 0] False)"
proof -
  let ?P = "examplePath [exampleNode 0 0, exampleNode 11 0, exampleNode 5 0] False"
  let ?Q = "examplePath [exampleNode 0 0, (exampleNode 11 0)\<lparr>isFixed := True\<rparr>, exampleNode 5 0] False"
  have len: "2 < length (nodes ?P)" by (simp add: examplePath_def newPath_def)
  have run: "pruneNodes ?P = examplePath [exampleNode 0 0, exampleNode 5 0] False"
    by (simp add: pruneNodes_def pruneNodes_loop.simps pruneNodes_body_def getConnectedNodes_def
      nth_opt_def splice_js_def distance_same_y Let_def example_defs)
  have body: "pruneNodes_body 2 ?P = examplePath [exampleNode 0 0, exampleNode 5 0] False"
    by (simp add: pruneNodes_body_def getConnectedNodes_def
      nth_opt_def splice_js_def distance_same_y Let_def example_defs)
  have f0: "far_enough 0 ?Q" and f1: "far_enough 1 ?Q" and f2: "far_enough 2 ?Q"
    by (simp_all add: far_enough_def getConnectedNodes_def nth_opt_def distance_same_y Let_def
        example_defs)
  have "\<forall>i<length (nodes ?Q). far_enough i ?Q"
  proof (intro allI impI)
    fix i assume "i < length (nodes ?Q)"
    then have "i = 0 \<or> i = 1 \<or> i = 2" by (auto simp: examplePath_def newPath_def)
    then show "far_enough i ?Q" using f0 f1 f2 by auto
  qed
  then have fixq: "pruneNodes ?Q = ?Q"
    using pruneNodes_removes_only_close_unfixed_predecessors [of ?Q 0 ?Q] by blast
  have sub: "subseq (nodes (pruneNodes ?P)) (nodes ?P)"
    and nf: "(pruneNodes ?P = ?P) = (\<forall>i<length (nodes ?P). far_enough i ?P)"
    using pruneNodes_removes_only_close_unfixed_predecessors [of ?P 2 ?P] by blast+
  have "pruneNodes ?P \<noteq> ?P" unfolding run by (simp add: examplePath_def newPath_def)
  then have "\<not> (\<forall>i<length (nodes ?P). far_enough i ?P)" using nf by simp
  moreover have "far_enough 0 ?P" "far_enough 1 ?P"
    by (simp_all add: far_enough_def getConnectedNodes_def nth_opt_def distance_same_y Let_def
        example_defs)
  moreover have "\<And>i. i < length (nodes ?P) \<Longrightarrow> i = 0 \<or> i = 1 \<or> i = 2"
    by (auto simp: examplePath_def newPath_def)
  ultimately have nfar: "\<not> far_enough 2 ?P" by blast
  have n: "nodes (pruneNodes ?P) = [exampleNode 0 0, exampleNode 5 0]"
    unfolding run by (simp add: examplePath_def newPath_def)
  have "subseq [exampleNode 0 0, exampleNode 5 0]
      [exampleNode 0 0, exampleNode 11 0, exampleNode 5 0]"
    using sub unfolding n by (simp add: examplePath_def newPath_def)
  then show ?thesis using len n nfar body fixq f2 by simp
qed

section \<open>Edge splitting\<close>

lemma getMidpointNode_nodes_upd [simp]:
  "getMidpointNode fl (p\<lparr>nodes := ns\<rparr>) = getMidpointNode fl p"
  by (simp add: getMidpointNode_def fun_eq_iff)

lemma prev_in_list:
  "D \<noteq> [] \<Longrightarrow> fst (getConnectedNodes (length D) (p\<lparr>nodes := D @ n # R\<rparr>)) = Some (last D)"
  using fst_getConnectedNodes [of "length D" "p\<lparr>nodes := D @ n # R\<rparr>"]
  by (simp add: nth_append last_conv_nth)

lemma splitEdges_body_in_list:
  assumes "D \<noteq> []"
  shows "splitEdges_body fl (length D) (p\<lparr>nodes := D @ n # R\<rparr>) =
     (if distance n (last D) \<ge> MaxDistance (settings p)
      then p\<lparr>nodes := D @ getMidpointNode fl p n (last D) False # n # R\<rparr>
      else p\<lparr>nodes := D @ n # R\<rparr>)"
  using assms by (simp add: splitEdges_body_def prev_in_list splice_js_def Let_def)

lemma splitEdges_loop_step:
  "index < length (nodes p) \<Longrightarrow>
   splitEdges_loop fl index p = splitEdges_loop fl (Suc index) (splitEdges_body fl index p)"
  by (subst splitEdges_loop.simps) simp

lemma splitEdges_loop_done:
  "\<not> index < length (nodes p) \<Longrightarrow> splitEdges_loop fl index p = Some p"
  by (subst splitEdges_loop.simps) simp

text \<open>
  The loop from an index on, \<open>D\<close> being the nodes before that index: when every edge
  ahead that is split is found short at the second look, the loop passes over each node
  once or twice and ends.
\<close>

lemma splitEdges_loop_one_pass:
  "D \<noteq> [] \<Longrightarrow>
   successively (\<lambda>a b. MaxDistance (settings p) \<le> distance b a \<longrightarrow>
       distance b (getMidpointNode fl p b a False) < MaxDistance (settings p)) (last D # R) \<Longrightarrow>
   splitEdges_loop fl (length D) (p\<lparr>nodes := D @ R\<rparr>)
     = Some (p\<lparr>nodes := D @ insertMidpoints fl p (last D) R\<rparr>)"
proof (induction R arbitrary: D)
  case Nil
  then show ?case by (simp add: splitEdges_loop_done)
next
  case (Cons n R)
  let ?M = "MaxDistance (settings p)"
  let ?ok = "\<lambda>a b. ?M \<le> distance b a \<longrightarrow> distance b (getMidpointNode fl p b a False) < ?M"
  have here: "?ok (last D) n" using Cons.prems by simp
  have rest: "successively ?ok (n # R)" using Cons.prems by simp
  show ?case
  proof (cases "distance n (last D) \<ge> ?M")
    case True
    let ?m = "getMidpointNode fl p n (last D) False"
    have second: "\<not> distance n ?m \<ge> ?M" using here True by simp
    have "splitEdges_loop fl (length D) (p\<lparr>nodes := D @ n # R\<rparr>)
        = splitEdges_loop fl (length (D @ [?m])) (p\<lparr>nodes := (D @ [?m]) @ n # R\<rparr>)"
      using True Cons.prems(1) by (simp add: splitEdges_loop_step splitEdges_body_in_list)
    also have "\<dots> = splitEdges_loop fl (length (D @ [?m, n])) (p\<lparr>nodes := (D @ [?m, n]) @ R\<rparr>)"
      using second
        splitEdges_body_in_list [where D = "D @ [?m]" and p = p and n = n and R = R and fl = fl]
      by (simp add: splitEdges_loop_step)
    also have "\<dots> = Some (p\<lparr>nodes := (D @ [?m, n]) @ insertMidpoints fl p (last (D @ [?m, n])) R\<rparr>)"
      using rest by (intro Cons.IH) simp_all
    finally show ?thesis using True by simp
  next
    case False
    have "splitEdges_loop fl (length D) (p\<lparr>nodes := D @ n # R\<rparr>)
        = splitEdges_loop fl (length (D @ [n])) (p\<lparr>nodes := (D @ [n]) @ R\<rparr>)"
      using False Cons.prems(1) by (simp add: splitEdges_loop_step splitEdges_body_in_list)
    also have "\<dots> = Some (p\<lparr>nodes := (D @ [n]) @ insertMidpoints fl p (last (D @ [n])) R\<rparr>)"
      using rest by (intro Cons.IH) simp_all
    finally show ?thesis using False by simp
  qed
qed


lemma insertMidpoints_append:
  "insertMidpoints fl p q (A @ B)
     = insertMidpoints fl p q A @ insertMidpoints fl p (last (q # A)) B"
  by (induction A arbitrary: q) simp_all

lemma in_edgeLengths:
  "d \<in> set (edgeLengths p) \<longleftrightarrow>
     (\<exists>i<length (nodes p). \<exists>q. fst (getConnectedNodes i p) = Some q
        \<and> d = distance (nodes p ! i) q)"
proof -
  have "d \<in> set (edgeLengths p) \<longleftrightarrow>
      (\<exists>i<length (nodes p). d \<in> set (case fst (getConnectedNodes i p) of
          None \<Rightarrow> [] | Some q \<Rightarrow> [distance (nodes p ! i) q]))"
    by (auto simp: edgeLengths_def)
  also have "\<dots> \<longleftrightarrow> (\<exists>i<length (nodes p). \<exists>q. fst (getConnectedNodes i p) = Some q
        \<and> d = distance (nodes p ! i) q)"
  proof (intro ex_cong1)
    fix i
    show "(i < length (nodes p) \<and> d \<in> set (case fst (getConnectedNodes i p) of
          None \<Rightarrow> [] | Some q \<Rightarrow> [distance (nodes p ! i) q]))
      = (i < length (nodes p) \<and> (\<exists>q. fst (getConnectedNodes i p) = Some q
        \<and> d = distance (nodes p ! i) q))"
      by (cases "fst (getConnectedNodes i p)") auto
  qed
  finally show ?thesis .
qed

lemma in_revisitLengths:
  assumes "i < length (nodes p)" and "fst (getConnectedNodes i p) = Some q"
    and "MaxDistance (settings p) \<le> distance (nodes p ! i) q"
  shows "(if i = 0 then distance (getMidpointNode fl p (nodes p ! i) q False) q
          else distance (nodes p ! i) (getMidpointNode fl p (nodes p ! i) q False))
         \<in> set (revisitLengths fl p)"
  unfolding revisitLengths_def set_concat set_map image_image
  by (rule UN_I [of i]) (simp_all add: assms)


lemma successively_conv_nth:
  "successively P xs \<longleftrightarrow> (\<forall>k. Suc k < length xs \<longrightarrow> P (xs ! k) (xs ! Suc k))"
proof (induction P xs rule: successively.induct)
  case (3 P a b xs)
  show ?case
  proof
    assume s: "successively P (a # b # xs)"
    show "\<forall>k. Suc k < length (a # b # xs) \<longrightarrow> P ((a # b # xs) ! k) ((a # b # xs) ! Suc k)"
    proof (intro allI impI)
      fix k assume "Suc k < length (a # b # xs)"
      then show "P ((a # b # xs) ! k) ((a # b # xs) ! Suc k)"
        using s 3 by (cases k) auto
    qed
  next
    assume n: "\<forall>k. Suc k < length (a # b # xs) \<longrightarrow> P ((a # b # xs) ! k) ((a # b # xs) ! Suc k)"
    have "P a b" using n [rule_format, of 0] by simp
    moreover have "\<forall>k. Suc k < length (b # xs) \<longrightarrow> P ((b # xs) ! k) ((b # xs) ! Suc k)"
      using n by (metis Suc_less_eq length_Cons nth_Cons_Suc)
    ultimately show "successively P (a # b # xs)" using 3 by simp
  qed
qed simp_all

text \<open>The edge lengths of a non-empty path, by position.\<close>

lemma edge_within_inner:
  assumes "\<forall>d\<in>set (edgeLengths p). P d"
  shows "successively (\<lambda>a b. P (distance b a)) (nodes p)"
  unfolding successively_conv_nth
proof (intro allI impI)
  fix k assume k: "Suc k < length (nodes p)"
  have "fst (getConnectedNodes (Suc k) p) = Some (nodes p ! k)"
    using k by (simp add: fst_getConnectedNodes)
  then have "distance (nodes p ! Suc k) (nodes p ! k) \<in> set (edgeLengths p)"
    using k unfolding in_edgeLengths by blast
  then show "P (distance (nodes p ! Suc k) (nodes p ! k))" using assms by blast
qed

lemma edge_within_wrap:
  assumes "\<forall>d\<in>set (edgeLengths p). P d" and "isClosed p" and "nodes p \<noteq> []"
  shows "P (distance (hd (nodes p)) (last (nodes p)))"
proof -
  have "fst (getConnectedNodes 0 p) = Some (last (nodes p))"
    using assms by (simp add: fst_getConnectedNodes last_conv_nth)
  then have "distance (nodes p ! 0) (last (nodes p)) \<in> set (edgeLengths p)"
    using assms(3) unfolding in_edgeLengths by blast
  then show ?thesis using assms by (simp add: hd_conv_nth)
qed


text \<open>The first round of the loop, at index 0.\<close>

lemma splitEdges_body_0:
  assumes "nodes p \<noteq> []"
  shows "splitEdges_body fl 0 p =
     (if isClosed p \<and> distance (hd (nodes p)) (last (nodes p)) \<ge> MaxDistance (settings p)
      then p\<lparr>nodes := nodes p @ [getMidpointNode fl p (hd (nodes p)) (last (nodes p)) False]\<rparr>
      else p)"
  using assms
  by (simp add: splitEdges_body_def fst_getConnectedNodes splice_js_def Let_def hd_conv_nth
      last_conv_nth)

lemma nodes_update_same: "nodes p = ns \<Longrightarrow> p\<lparr>nodes := ns\<rparr> = p"
  by (cases p) simp

lemma splitEdges_start:
  assumes "nodes p = n0 # rest"
  shows "splitEdges fl p =
     splitEdges_loop fl (Suc 0)
       (p\<lparr>nodes := n0 # rest @
          (if isClosed p \<and> distance n0 (last (n0 # rest)) \<ge> MaxDistance (settings p)
           then [getMidpointNode fl p n0 (last (n0 # rest)) False] else [])\<rparr>)"
proof -
  define far where
    "far = (isClosed p \<and> distance n0 (last (n0 # rest)) \<ge> MaxDistance (settings p))"
  have s: "splitEdges fl p = splitEdges_loop fl (Suc 0) (splitEdges_body fl 0 p)"
    using assms by (simp add: splitEdges_def splitEdges_loop_step)
  have b: "splitEdges_body fl 0 p =
     (if far then p\<lparr>nodes := (n0 # rest) @ [getMidpointNode fl p n0 (last (n0 # rest)) False]\<rparr>
      else p)"
    unfolding far_def using splitEdges_body_0 [of p fl] assms by (simp del: last.simps)
  have "splitEdges fl p = splitEdges_loop fl (Suc 0)
       (p\<lparr>nodes := n0 # rest @
          (if far then [getMidpointNode fl p n0 (last (n0 # rest)) False] else [])\<rparr>)"
  proof (cases far)
    case True
    then show ?thesis unfolding s b by (simp del: last.simps)
  next
    case False
    then show ?thesis unfolding s b using nodes_update_same [OF assms]
      by (simp del: last.simps)
  qed
  then show ?thesis unfolding far_def .
qed

lemma upt_0_Suc: "[0..<Suc n] = 0 # map Suc [0..<n]"
  by (simp add: upt_conv_Cons map_Suc_upt del: upt_Suc)

lemma insertMidpoints_by_index:
  "concat (map (\<lambda>k. (if distance (R ! k) ((q # R) ! k) \<ge> MaxDistance (settings p)
                       then [getMidpointNode fl p (R ! k) ((q # R) ! k) False] else []) @ [R ! k])
               [0..<length R])
   = insertMidpoints fl p q R"
proof (induction R arbitrary: q)
  case Nil
  then show ?case by simp
next
  case (Cons n R)
  show ?case
    using Cons.IH [of n]
    by (simp add: upt_0_Suc comp_def del: upt_Suc cong: if_cong)
qed

lemma midpointBefore_Suc:
  assumes "nodes p = n0 # rest" and "k < length rest"
  shows "midpointBefore fl tooLong (Suc k) p =
     (if tooLong (distance (rest ! k) ((n0 # rest) ! k)) (MaxDistance (settings p))
      then [getMidpointNode fl p (rest ! k) ((n0 # rest) ! k) False] else [])"
  using assms by (simp add: midpointBefore_def fst_getConnectedNodes)

lemma midpointBefore_0:
  assumes "nodes p = n0 # rest"
  shows "midpointBefore fl tooLong 0 p =
     (if isClosed p \<and> tooLong (distance n0 (last (n0 # rest))) (MaxDistance (settings p))
      then [getMidpointNode fl p n0 (last (n0 # rest)) False] else [])"
  using assms
  by (simp add: midpointBefore_def fst_getConnectedNodes last_conv_nth del: last.simps)

lemma splitEdges_amended_list:
  assumes "nodes p = n0 # rest"
  shows "splitEdges_amended fl p =
     p\<lparr>nodes := n0 # insertMidpoints fl p n0 rest @
        (if isClosed p \<and> distance n0 (last (n0 # rest)) \<ge> MaxDistance (settings p)
         then [getMidpointNode fl p n0 (last (n0 # rest)) False] else [])\<rparr>"
proof -
  have "concat (map (\<lambda>k. midpointBefore fl (\<lambda>d m. d \<ge> m) (Suc k) p @ [rest ! k]) [0..<length rest])
      = concat (map (\<lambda>k. (if distance (rest ! k) ((n0 # rest) ! k) \<ge> MaxDistance (settings p)
                       then [getMidpointNode fl p (rest ! k) ((n0 # rest) ! k) False] else [])
                     @ [rest ! k]) [0..<length rest])"
    by (rule arg_cong [where f = concat], rule map_cong)
      (simp_all add: midpointBefore_Suc [OF assms])
  then have "concat (map (\<lambda>i. (if i = 0 then [] else midpointBefore fl (\<lambda>d m. d \<ge> m) i p)
                        @ [(n0 # rest) ! i]) [0..<Suc (length rest)])
      = n0 # insertMidpoints fl p n0 rest"
    by (simp add: upt_0_Suc comp_def insertMidpoints_by_index del: upt_Suc)
  then show ?thesis
    using assms midpointBefore_0 [OF assms, where tooLong = "\<lambda>d m. d \<ge> m" and fl = fl]
    by (simp add: splitEdges_amended_def splitEdges_once_def del: upt_Suc last.simps)
qed


text \<open>The lengths looked at again after a split, by position.\<close>

lemma revisit_inner:
  assumes "\<forall>d\<in>set (revisitLengths fl p). P d"
  shows "successively (\<lambda>a b. MaxDistance (settings p) \<le> distance b a \<longrightarrow>
            P (distance b (getMidpointNode fl p b a False))) (nodes p)"
  unfolding successively_conv_nth
proof (intro allI impI)
  fix k assume k: "Suc k < length (nodes p)"
    and far: "MaxDistance (settings p) \<le> distance (nodes p ! Suc k) (nodes p ! k)"
  have "fst (getConnectedNodes (Suc k) p) = Some (nodes p ! k)"
    using k by (simp add: fst_getConnectedNodes)
  from in_revisitLengths [OF k this far, of fl]
  show "P (distance (nodes p ! Suc k) (getMidpointNode fl p (nodes p ! Suc k) (nodes p ! k) False))"
    using assms by simp
qed

lemma revisit_wrap:
  assumes "\<forall>d\<in>set (revisitLengths fl p). P d" and "isClosed p" and "nodes p \<noteq> []"
    and "MaxDistance (settings p) \<le> distance (hd (nodes p)) (last (nodes p))"
  shows "P (distance (getMidpointNode fl p (hd (nodes p)) (last (nodes p)) False)
            (last (nodes p)))"
proof -
  have i: "0 < length (nodes p)" using assms(3) by simp
  have q: "fst (getConnectedNodes 0 p) = Some (last (nodes p))"
    using assms by (simp add: fst_getConnectedNodes last_conv_nth)
  have far: "MaxDistance (settings p) \<le> distance (nodes p ! 0) (last (nodes p))"
    using assms(3,4) by (simp add: hd_conv_nth)
  from in_revisitLengths [OF i q far, of fl] show ?thesis
    using assms(1,3) by (simp add: hd_conv_nth)
qed




text \<open>
  A call of \<open>splitEdges\<close> on a non-empty path whose split edges are found short at the
  second look: index 0 appends its midpoint, the loop then passes once over the rest.
\<close>

lemma splitEdges_run:
  assumes "nodes p = n0 # rest"
    and "\<forall>d\<in>set (revisitLengths fl p). d < MaxDistance (settings p)"
  shows "splitEdges fl p
     = Some (p\<lparr>nodes := n0 # insertMidpoints fl p n0 rest @
          (if isClosed p \<and> distance n0 (last (n0 # rest)) \<ge> MaxDistance (settings p)
           then [getMidpointNode fl p n0 (last (n0 # rest)) False] else [])\<rparr>)"
proof -
  let ?M = "MaxDistance (settings p)"
  let ?m0 = "getMidpointNode fl p n0 (last (n0 # rest)) False"
  let ?ok = "\<lambda>a b. ?M \<le> distance b a \<longrightarrow> distance b (getMidpointNode fl p b a False) < ?M"
  define far where "far = (isClosed p \<and> distance n0 (last (n0 # rest)) \<ge> ?M)"
  define w where "w = (if far then [?m0] else [])"
  have inner: "successively ?ok (n0 # rest)"
    using revisit_inner [OF assms(2)] assms(1) by simp
  have half: "far \<Longrightarrow> distance ?m0 (last (n0 # rest)) < ?M"
    using revisit_wrap [OF assms(2)] assms(1) unfolding far_def by (simp del: last.simps)
  have chain: "successively ?ok (n0 # rest @ w)"
  proof (cases far)
    case True
    have "successively ?ok ((n0 # rest) @ [?m0])"
      using inner half [OF True] unfolding successively_append_iff
      by (simp del: last.simps)
    then show ?thesis using True by (simp add: w_def)
  next
    case False
    then show ?thesis using inner by (simp add: w_def)
  qed
  have "splitEdges_loop fl (length [n0]) (p\<lparr>nodes := [n0] @ rest @ w\<rparr>)
      = Some (p\<lparr>nodes := [n0] @ insertMidpoints fl p (last [n0]) (rest @ w)\<rparr>)"
    by (rule splitEdges_loop_one_pass) (use chain in simp_all)
  then have run: "splitEdges fl p = Some (p\<lparr>nodes := n0 # insertMidpoints fl p n0 (rest @ w)\<rparr>)"
    using splitEdges_start [OF assms(1), of fl, folded far_def, folded w_def] by simp
  have "insertMidpoints fl p (last (n0 # rest)) w = w"
    using half by (cases far) (simp_all add: w_def del: last.simps)
  then have "insertMidpoints fl p n0 (rest @ w) = insertMidpoints fl p n0 rest @ w"
    by (simp add: insertMidpoints_append del: last.simps)
  then show ?thesis using run unfolding w_def far_def by simp
qed

lemmas split_eval = splitEdges_def splitEdges_loop.simps splitEdges_body_def
  getConnectedNodes_def nth_opt_def splice_js_def distance_same_y distance_same_x
  getMidpointNode_def Let_def exampleRound_def example_defs

text \<open>
  C2, as stated, fails twice on the open path through (0, 0), (20, 0) and (120, 0) with
  \<open>MaxDistance = 20\<close>. The second node is exactly 20 away from the first: the source
  tests \<open>>=\<close> and inserts the midpoint (10, 0), where a distance that exceeds the
  threshold is asked for. The third node is 100 away from the second: after the
  midpoint (70, 0) is inserted the loop visits the third node again, now 50 away from
  its previous neighbour, and inserts (95, 0) and then (107.5, 0); three nodes for one
  pair. C2 gives the four nodes (0, 0), (20, 0), (70, 0), (120, 0). Every coordinate
  and every sum here is a double, so that nothing is rounded.
\<close>

theorem splitEdges_splits_at_threshold_and_repeatedly_counterexample:
  "splitEdges exampleRound
       (examplePath [exampleNode 0 0, exampleNode 20 0, exampleNode 120 0] False)
     = Some (examplePath [exampleNode 0 0, exampleNode 10 0, exampleNode 20 0, exampleNode 70 0,
                          exampleNode 95 0, exampleNode (215 / 2) 0, exampleNode 120 0] False)
   \<and> splitEdges_claimed exampleRound
       (examplePath [exampleNode 0 0, exampleNode 20 0, exampleNode 120 0] False)
     = examplePath [exampleNode 0 0, exampleNode 20 0, exampleNode 70 0, exampleNode 120 0] False
   \<and> splitEdges exampleRound
       (examplePath [exampleNode 0 0, exampleNode 20 0, exampleNode 120 0] False)
     \<noteq> Some (splitEdges_claimed exampleRound
          (examplePath [exampleNode 0 0, exampleNode 20 0, exampleNode 120 0] False))"
proof -
  let ?P = "examplePath [exampleNode 0 0, exampleNode 20 0, exampleNode 120 0] False"
  have a: "splitEdges exampleRound ?P
     = Some (examplePath [exampleNode 0 0, exampleNode 10 0, exampleNode 20 0, exampleNode 70 0,
                          exampleNode 95 0, exampleNode (215 / 2) 0, exampleNode 120 0] False)"
    by (simp add: split_eval)
  have b: "splitEdges_claimed exampleRound ?P
     = examplePath [exampleNode 0 0, exampleNode 20 0, exampleNode 70 0, exampleNode 120 0] False"
    by (simp add: splitEdges_claimed_def splitEdges_once_def midpointBefore_def
        getConnectedNodes_def nth_opt_def distance_same_y getMidpointNode_def Let_def
        exampleRound_def example_defs upt_conv_Cons)
  show ?thesis unfolding a b by (simp add: example_defs)
qed

text \<open>
  C2 (amended): when, for every node that is at least \<open>MaxDistance\<close> away from its
  previous neighbour, the midpoint node that the code computes for the pair is closer
  than \<open>MaxDistance\<close> to that node (for index 0 of a closed path: to the previous
  neighbour, the last node), a call of \<open>splitEdges\<close> returns, and its result is the path
  with one midpoint inserted for exactly every node whose distance to its previous
  neighbour is at least \<open>MaxDistance\<close>, immediately before that node (at the end of the
  array for index 0 of a closed path), and nothing else changed. The condition is on
  the distances that the loop finds at its second look at a node (\<open>revisitLengths\<close>):
  the coordinates of a midpoint are rounded, and neither a property of the rounding nor
  one of the distance is used.
\<close>

theorem splitEdges_one_midpoint_per_long_edge:
  assumes "\<forall>d\<in>set (revisitLengths fl p). d < MaxDistance (settings p)"
  shows "splitEdges fl p = Some (splitEdges_amended fl p)"
proof (cases "nodes p")
  case Nil
  then have "splitEdges fl p = Some p" by (simp add: splitEdges_def splitEdges_loop_done)
  moreover have "splitEdges_amended fl p = p"
    using Nil by (simp add: splitEdges_amended_def splitEdges_once_def nodes_update_same)
  ultimately show ?thesis by simp
next
  case (Cons n0 rest)
  show ?thesis
    unfolding splitEdges_run [OF Cons assms] splitEdges_amended_list [OF Cons] ..
qed

theorem splitEdges_one_midpoint_per_long_edge_witness:
  "revisitLengths exampleRound
       (examplePath [exampleNode 0 0, exampleNode 10 0, exampleNode 10 30, exampleNode 0 30] True)
     = [15, 15]
   \<and> MaxDistance (settings
       (examplePath [exampleNode 0 0, exampleNode 10 0, exampleNode 10 30, exampleNode 0 30] True))
     = 20
   \<and> splitEdges exampleRound
       (examplePath [exampleNode 0 0, exampleNode 10 0, exampleNode 10 30, exampleNode 0 30] True)
     = Some (examplePath [exampleNode 0 0, exampleNode 10 0, exampleNode 10 15,
          exampleNode 10 30, exampleNode 0 30, exampleNode 0 15] True)
   \<and> splitEdges_amended exampleRound
       (examplePath [exampleNode 0 0, exampleNode 10 0, exampleNode 10 30, exampleNode 0 30] True)
     = examplePath [exampleNode 0 0, exampleNode 10 0, exampleNode 10 15,
          exampleNode 10 30, exampleNode 0 30, exampleNode 0 15] True"
proof -
  let ?P = "examplePath [exampleNode 0 0, exampleNode 10 0, exampleNode 10 30, exampleNode 0 30] True"
  have e: "revisitLengths exampleRound ?P = [15, 15]"
    by (simp add: revisitLengths_def getConnectedNodes_def nth_opt_def distance_same_x
        distance_same_y getMidpointNode_def Let_def exampleRound_def example_defs upt_conv_Cons)
  have m: "MaxDistance (settings ?P) = 20" by (simp add: example_defs)
  have h: "\<forall>d\<in>set (revisitLengths exampleRound ?P). d < MaxDistance (settings ?P)"
    unfolding e m by simp
  have s: "splitEdges_amended exampleRound ?P
     = examplePath [exampleNode 0 0, exampleNode 10 0, exampleNode 10 15,
          exampleNode 10 30, exampleNode 0 30, exampleNode 0 15] True"
    by (simp add: splitEdges_amended_def splitEdges_once_def midpointBefore_def
        getConnectedNodes_def nth_opt_def distance_same_x distance_same_y getMidpointNode_def
        Let_def exampleRound_def example_defs upt_conv_Cons)
  show ?thesis
    using splitEdges_one_midpoint_per_long_edge [OF h] unfolding s e m by simp
qed




section \<open>The fixed flag\<close>

lemma keepsFixedInPlace_refl: "keepsFixedInPlace p p"
  by (simp add: keepsFixedInPlace_def)

lemma keepsFixedInPlace_trans:
  "keepsFixedInPlace p q \<Longrightarrow> keepsFixedInPlace q r \<Longrightarrow> keepsFixedInPlace p r"
  by (simp add: keepsFixedInPlace_def)

lemma keepsFixedInPlace_update:
  "(index < length (nodes p) \<Longrightarrow> isFixed (nodes p ! index) \<Longrightarrow> isFixed n') \<Longrightarrow>
   keepsFixedInPlace p (p\<lparr>nodes := (nodes p)[index := n']\<rparr>)"
proof -
  assume a: "index < length (nodes p) \<Longrightarrow> isFixed (nodes p ! index) \<Longrightarrow> isFixed n'"
  have "isFixed ((nodes p)[index := n'] ! j)"
    if "j < length (nodes p)" and "isFixed (nodes p ! j)" for j
    using that a by (cases "j = index") simp_all
  then show ?thesis by (simp add: keepsFixedInPlace_def)
qed

lemma keepsFixedInPlace_map:
  "(\<And>n. isFixed n \<Longrightarrow> isFixed (f n)) \<Longrightarrow> keepsFixedInPlace p (p\<lparr>nodes := map f (nodes p)\<rparr>)"
  by (simp add: keepsFixedInPlace_def)

lemma nth_opt_Some: "nth_opt xs (int index) = Some n \<Longrightarrow> index < length xs \<and> n = xs ! index"
  by (auto simp: nth_opt_def split: if_splits)

lemma applyBrownianMotion_keeps:
  "applyBrownianMotion index rx ry p = Inr p' \<Longrightarrow> keepsFixedInPlace p p'"
  by (auto simp: applyBrownianMotion_def split: option.splits dest!: nth_opt_Some
      intro!: keepsFixedInPlace_update)

lemma attractTo_keeps: "attractTo index nb p = Inr p' \<Longrightarrow> keepsFixedInPlace p p'"
  by (auto simp: attractTo_def Let_def keepsFixedInPlace_refl
      split: option.splits if_splits dest!: nth_opt_Some intro!: keepsFixedInPlace_update)

lemma applyAttraction_keeps: "applyAttraction index p = Inr p' \<Longrightarrow> keepsFixedInPlace p p'"
  by (auto simp: applyAttraction_def Let_def split: sum.splits
      intro: keepsFixedInPlace_trans attractTo_keeps)

lemma repel_keeps: "keepsFixedInPlace p (repel index other p)"
  unfolding repel_def by (rule keepsFixedInPlace_update) simp

lemma fold_repel_keeps: "keepsFixedInPlace p (fold (repel index) hits p)"
proof (induction hits arbitrary: p)
  case Nil
  then show ?case by (simp add: keepsFixedInPlace_refl)
next
  case (Cons m hits)
  show ?case
    using repel_keeps [of p index m] Cons [of "repel index m p"]
    by (auto intro: keepsFixedInPlace_trans)
qed

lemma applyRepulsion_keeps:
  "applyRepulsion knn index tree p = Inr p' \<Longrightarrow> keepsFixedInPlace p p'"
  by (auto simp: applyRepulsion_def Let_def fold_repel_keeps split: option.splits)

lemma applyAlignment_keeps: "applyAlignment fl index p = Inr p' \<Longrightarrow> keepsFixedInPlace p p'"
  by (auto simp: applyAlignment_def Let_def keepsFixedInPlace_refl
      split: option.splits if_splits dest!: nth_opt_Some intro!: keepsFixedInPlace_update)

lemma applyBounds_keeps: "applyBounds cont index p = Inr p' \<Longrightarrow> keepsFixedInPlace p p'"
  by (auto simp: applyBounds_def keepsFixedInPlace_refl
      split: option.splits if_splits dest!: nth_opt_Some intro!: keepsFixedInPlace_update)

lemma applyBounds_fixes:
  assumes "index < length (nodes p)" and "bounds p = Some b"
    and "\<not> cont b (x (nodes p ! index), y (nodes p ! index))"
  shows "\<exists>p'. applyBounds cont index p = Inr p' \<and> isFixed (nodes p' ! index)"
  using assms by (simp add: applyBounds_def nth_opt_in_range)

lemma iterate_node_keeps: "iterate_node h index p = Inr p' \<Longrightarrow> keepsFixedInPlace p p'"
proof -
  assume r: "iterate_node h index p = Inr p'"
  then obtain p1 p2 p3 p4 p5 where
    s: "(if useBrownianMotion p
         then applyBrownianMotion index (fst (h_random h index)) (snd (h_random h index)) p
         else Inr p) = Inr p1"
      "applyAttraction index p1 = Inr p2"
      "applyRepulsion (h_knn h) index (h_tree h index) p2 = Inr p3"
      "applyAlignment (h_round h) index p3 = Inr p4"
      "applyBounds (h_contains h) index p4 = Inr p5"
      "p' = p5\<lparr>nodes := (nodes p5)[index := Node_iterate (h_fraction h) (nodes p5 ! index)]\<rparr>"
    by (auto simp: iterate_node_def split: sum.splits)
  have "keepsFixedInPlace p p1"
    using s(1) by (auto split: if_splits intro: applyBrownianMotion_keeps keepsFixedInPlace_refl)
  moreover have "keepsFixedInPlace p1 p2" using s(2) by (rule applyAttraction_keeps)
  moreover have "keepsFixedInPlace p2 p3" using s(3) by (rule applyRepulsion_keeps)
  moreover have "keepsFixedInPlace p3 p4" using s(4) by (rule applyAlignment_keeps)
  moreover have "keepsFixedInPlace p4 p5" using s(5) by (rule applyBounds_keeps)
  moreover have "keepsFixedInPlace p5 p'"
    unfolding s(6) by (rule keepsFixedInPlace_update) (simp add: Node_iterate_def)
  ultimately show ?thesis by (blast intro: keepsFixedInPlace_trans)
qed

lemma iterate_loop_keeps: "iterate_loop h index p = Inr p' \<Longrightarrow> keepsFixedInPlace p p'"
proof (induction h index p rule: iterate_loop.induct)
  case (1 h index p)
  show ?case
  proof (cases "index < length (nodes p)")
    case True
    then obtain p1 where n: "iterate_node h index p = Inr p1"
      and l: "iterate_loop h (index + 1) p1 = Inr p'"
      using "1.prems" by (subst (asm) iterate_loop.simps) (auto split: sum.splits)
    show ?thesis
      using iterate_node_keeps [OF n] "1.IH" [OF True n l] by (rule keepsFixedInPlace_trans)
  next
    case False
    then have "p' = p" using "1.prems" by (subst (asm) iterate_loop.simps) simp
    then show ?thesis by (simp add: keepsFixedInPlace_refl)
  qed
qed

text \<open>Insertion of a node that is not fixed.\<close>

lemma filter_insert:
  assumes "\<not> P m"
  shows "filter P (splice_js xs k 0 [m]) = filter P xs"
proof -
  have "filter P (take k xs @ [m] @ drop k xs) = filter P (take k xs) @ filter P (drop k xs)"
    using assms by simp
  also have "\<dots> = filter P (take k xs @ drop k xs)" by (simp only: filter_append)
  also have "\<dots> = filter P xs" by (simp only: append_take_drop_id)
  finally show ?thesis by (simp only: splice_js_def add_0_right)
qed

lemma not_fixed_midpoint: "\<not> isFixed (getMidpointNode fl p a b False)"
  by (simp add: getMidpointNode_def newNode_def)

lemma splitEdges_body_fixed:
  "filter isFixed (nodes (splitEdges_body fl index p)) = filter isFixed (nodes p)"
  by (simp add: splitEdges_body_def Let_def filter_insert not_fixed_midpoint
      split: option.splits)

lemma splitEdges_loop_fixed:
  assumes "splitEdges_loop fl index p = Some p'"
  shows "filter isFixed (nodes p') = filter isFixed (nodes p)"
proof (rule splitEdges_loop.raw_induct
    [where P = "\<lambda>f i q r. filter isFixed (nodes r) = filter isFixed (nodes q)", OF _ assms])
  fix loop :: "(real \<Rightarrow> real) \<Rightarrow> nat \<Rightarrow> path \<Rightarrow> path option" and f i q r
  assume ih: "\<And>g j s t. loop g j s = Some t \<Longrightarrow> filter isFixed (nodes t) = filter isFixed (nodes s)"
    and st: "(if i < length (nodes q) then loop f (i + 1) (splitEdges_body f i q) else Some q) = Some r"
  show "filter isFixed (nodes r) = filter isFixed (nodes q)"
  proof (cases "i < length (nodes q)")
    case True
    then have "loop f (i + 1) (splitEdges_body f i q) = Some r" using st by simp
    then show ?thesis using ih splitEdges_body_fixed by simp
  next
    case False
    then show ?thesis using st by simp
  qed
qed

lemma injectRandomNode_fixed:
  "injectRandomNode fl index p = Inr p' \<Longrightarrow> filter isFixed (nodes p') = filter isFixed (nodes p)"
  by (auto simp: injectRandomNode_def Let_def filter_insert not_fixed_midpoint
      split: option.splits if_splits)

lemma filter_length_mono:
  "length xs = length ys \<Longrightarrow> (\<forall>j<length xs. P (xs ! j) \<longrightarrow> P (ys ! j)) \<Longrightarrow>
   length (filter P xs) \<le> length (filter P ys)"
proof (induction xs ys rule: list_induct2)
  case Nil
  then show ?case by simp
next
  case (Cons a xs b ys)
  have "\<forall>j<length xs. P (xs ! j) \<longrightarrow> P (ys ! j)"
    using Cons.prems by (metis Suc_less_eq length_Cons nth_Cons_Suc)
  then have ih: "length (filter P xs) \<le> length (filter P ys)" by (rule Cons.IH)
  have "P a \<longrightarrow> P b" using Cons.prems by (metis length_Cons nth_Cons_0 zero_less_Suc)
  then show ?case using ih by auto
qed

lemma keepsFixedInPlace_count:
  "keepsFixedInPlace p p' \<Longrightarrow>
   length (filter isFixed (nodes p)) \<le> length (filter isFixed (nodes p'))"
  unfolding keepsFixedInPlace_def by (intro filter_length_mono) simp_all

lemma injectNode_fixed:
  "injectNode h p = Some (Inr p') \<Longrightarrow> filter isFixed (nodes p') = filter isFixed (nodes p)"
  by (auto simp: injectNode_def injectNodeByCurvature_def injectNodeByCurvature_loop_id
      injectRandomNode_fixed split: if_splits)

lemma iterate_fixed:
  assumes "iterate h p = Some (Inr p')"
  shows "\<exists>p1. iterate_loop h 0 p = Inr p1 \<and> keepsFixedInPlace p p1
           \<and> filter isFixed (nodes p') = filter isFixed (nodes p1)"
proof -
  obtain p1 p2 where l: "iterate_loop h 0 p = Inr p1" and s: "splitEdges (h_round h) p1 = Some p2"
    and r: "(if h_millis_test h - lastNodeInjectTime (pruneNodes p2)
                \<ge> NodeInjectionInterval (settings (pruneNodes p2))
            then (case injectNode h (pruneNodes p2) of
                    None \<Rightarrow> None
                  | Some (Inl e) \<Rightarrow> Some (Inl e)
                  | Some (Inr p4) \<Rightarrow> Some (Inr (p4\<lparr>lastNodeInjectTime := h_millis_store h\<rparr>)))
            else Some (Inr (pruneNodes p2))) = Some (Inr p')"
    using assms by (auto simp: iterate_def Let_def split: sum.splits option.splits)
  have a: "filter isFixed (nodes p2) = filter isFixed (nodes p1)"
    using s by (simp add: splitEdges_def splitEdges_loop_fixed)
  have b: "filter isFixed (nodes (pruneNodes p2)) = filter isFixed (nodes p2)"
    using pruneNodes_loop_props [of 0 p2] by (simp add: pruneNodes_def)
  have c: "filter isFixed (nodes p') = filter isFixed (nodes (pruneNodes p2))"
    using r by (auto split: if_splits option.splits sum.splits dest: injectNode_fixed)
  show ?thesis using l iterate_loop_keeps [OF l] a b c by simp
qed

lemma iterate_count:
  "iterate h p = Some (Inr p') \<Longrightarrow>
   length (filter isFixed (nodes p)) \<le> length (filter isFixed (nodes p'))"
  using iterate_fixed [of h p p'] keepsFixedInPlace_count by fastforce

lemma iterateMany_count:
  "iterateMany hs p = Some (Inr p') \<Longrightarrow>
   length (filter isFixed (nodes p)) \<le> length (filter isFixed (nodes p'))"
proof (induction hs arbitrary: p)
  case Nil
  then show ?case by simp
next
  case (Cons h hs)
  then obtain p1 where i: "iterate h p = Some (Inr p1)" and m: "iterateMany hs p1 = Some (Inr p')"
    by (auto split: option.splits sum.splits)
  show ?case using iterate_count [OF i] Cons.IH [OF m] by simp
qed

lemmas iterate_eval = iterate_def iterate_loop.simps iterate_node_def applyAttraction_def
  attractTo_def applyRepulsion_def applyAlignment_def applyBounds_def getConnectedNodes_def
  nth_opt_def knnWithin_def Node_iterate_def lerp_def distance_same_y exampleHost_def
  exampleContains_def exampleBounds_def splitEdges_def splitEdges_loop.simps splitEdges_body_def
  pruneNodes_def pruneNodes_loop.simps pruneNodes_body_def splice_js_def getMidpointNode_def
  Let_def example_defs

text \<open>
  C7: no operation of \<open>Path\<close> clears the flag \<open>isFixed\<close> of a node. The forces, the
  bounds check (which sets the flag of a node outside the bounds), the commit of a
  step, the loop of \<open>iterate\<close> over the nodes and the operations on all nodes keep
  the array in place: same length, and a node that was fixed is fixed at the same
  index. Edge splitting, pruning and injection leave the fixed nodes as they are, in
  their order: the nodes they insert are not fixed, the nodes pruning removes are not
  fixed, and injection by curvature changes nothing. So one tick maps the fixed nodes
  left by its loop over the nodes to the fixed nodes of its result, and over any run of
  ticks the number of fixed nodes never decreases. The operations on colours, trace
  mode, bounds and history do not touch the nodes, and \<open>addNode\<close> appends.
\<close>

theorem fixed_flag_is_never_cleared:
  "(applyBrownianMotion index rx ry p = Inr p' \<longrightarrow> keepsFixedInPlace p p')
   \<and> (applyAttraction index p = Inr p' \<longrightarrow> keepsFixedInPlace p p')
   \<and> (applyRepulsion knn index tree p = Inr p' \<longrightarrow> keepsFixedInPlace p p')
   \<and> (applyAlignment fl index p = Inr p' \<longrightarrow> keepsFixedInPlace p p')
   \<and> (applyBounds cont index p = Inr p' \<longrightarrow> keepsFixedInPlace p p')
   \<and> (index < length (nodes p) \<and> bounds p = Some b
        \<and> \<not> cont b (x (nodes p ! index), y (nodes p ! index)) \<longrightarrow>
       (\<exists>q. applyBounds cont index p = Inr q \<and> isFixed (nodes q ! index)))
   \<and> (iterate_node h index p = Inr p' \<longrightarrow> keepsFixedInPlace p p')
   \<and> (iterate_loop h index p = Inr p' \<longrightarrow> keepsFixedInPlace p p')
   \<and> (splitEdges fl p = Some p' \<longrightarrow> filter isFixed (nodes p') = filter isFixed (nodes p))
   \<and> filter isFixed (nodes (pruneNodes p)) = filter isFixed (nodes p)
   \<and> (injectRandomNode fl index p = Inr p' \<longrightarrow> filter isFixed (nodes p') = filter isFixed (nodes p))
   \<and> injectNodeByCurvature fl p = Some p
   \<and> (iterate h p = Some (Inr p') \<longrightarrow>
       (\<exists>p1. iterate_loop h 0 p = Inr p1 \<and> keepsFixedInPlace p p1
          \<and> filter isFixed (nodes p') = filter isFixed (nodes p1)))
   \<and> (iterateMany hs p = Some (Inr p') \<longrightarrow>
       length (filter isFixed (nodes p)) \<le> length (filter isFixed (nodes p')))
   \<and> keepsFixedInPlace p (moveTo dx dy p)
   \<and> keepsFixedInPlace p (scale factor p)
   \<and> keepsFixedInPlace p (setMinDistance v p)
   \<and> keepsFixedInPlace p (setMaxDistance v p)
   \<and> keepsFixedInPlace p (setRepulsionRadius v p)
   \<and> nodes (addNode n p) = nodes p @ [n]
   \<and> nodes (setBounds bo p) = nodes p
   \<and> nodes (addToHistory p) = nodes p
   \<and> nodes (snd (setTraceMode state (st, p))) = nodes p
   \<and> nodes (snd (setInvertedColors state (st, p))) = nodes p"
proof -
  have bulk: "keepsFixedInPlace p (moveTo dx dy p)" "keepsFixedInPlace p (scale factor p)"
    "keepsFixedInPlace p (setMinDistance v p)" "keepsFixedInPlace p (setMaxDistance v p)"
    "keepsFixedInPlace p (setRepulsionRadius v p)"
    by (simp_all add: keepsFixedInPlace_def moveTo_def scale_def setMinDistance_def
        setMaxDistance_def setRepulsionRadius_def)
  have other: "nodes (addNode n p) = nodes p @ [n]" "nodes (setBounds bo p) = nodes p"
    "nodes (addToHistory p) = nodes p"
    "nodes (snd (setTraceMode state (st, p))) = nodes p"
    "nodes (snd (setInvertedColors state (st, p))) = nodes p"
    by (simp_all add: addNode_def setBounds_def addToHistory_def setTraceMode_def
        setInvertedColors_def Let_def)
  have prune: "filter isFixed (nodes (pruneNodes p)) = filter isFixed (nodes p)"
    using pruneNodes_loop_props [of 0 p] by (simp add: pruneNodes_def)
  have curv: "injectNodeByCurvature fl p = Some p"
    by (simp add: injectNodeByCurvature_def injectNodeByCurvature_loop_id)
  have split: "splitEdges fl p = Some p' \<longrightarrow> filter isFixed (nodes p') = filter isFixed (nodes p)"
    by (simp add: splitEdges_def splitEdges_loop_fixed)
  show ?thesis
    using bulk other prune curv split
      applyBrownianMotion_keeps [of index rx ry p p'] applyAttraction_keeps [of index p p']
      applyRepulsion_keeps [of knn index tree p p'] applyAlignment_keeps [of fl index p p']
      applyBounds_keeps [of cont index p p'] applyBounds_fixes [of index p b cont]
      iterate_node_keeps [of h index p p'] iterate_loop_keeps [of h index p p']
      injectRandomNode_fixed [of fl index p p'] iterate_fixed [of h p p']
      iterateMany_count [of hs p p']
    by (intro conjI impI) (simp_all only: simp_thms)
qed

theorem fixed_flag_is_never_cleared_witness:
  "applyBounds exampleContains 1
      ((examplePath [exampleNode 0 0, exampleNode 15 0] False)\<lparr>bounds := Some exampleBounds\<rparr>)
     = Inr ((examplePath [exampleNode 0 0, (exampleNode 15 0)\<lparr>isFixed := True\<rparr>] False)
              \<lparr>bounds := Some exampleBounds\<rparr>)
   \<and> iterate exampleHost
      ((examplePath [exampleNode 0 0, exampleNode 15 0] False)\<lparr>bounds := Some exampleBounds\<rparr>)
     = Some (Inr ((examplePath [(exampleNode (63 / 5) 0)\<lparr>isFixed := True\<rparr>] False)
              \<lparr>bounds := Some exampleBounds\<rparr>))
   \<and> iterateMany [exampleHost, exampleHost]
      ((examplePath [exampleNode 0 0, exampleNode 15 0] False)\<lparr>bounds := Some exampleBounds\<rparr>)
     = Some (Inr ((examplePath [(exampleNode (63 / 5) 0)\<lparr>isFixed := True\<rparr>] False)
              \<lparr>bounds := Some exampleBounds\<rparr>))
   \<and> length (filter isFixed (nodes
        ((examplePath [exampleNode 0 0, exampleNode 15 0] False)\<lparr>bounds := Some exampleBounds\<rparr>)))
     \<le> length (filter isFixed (nodes
        ((examplePath [(exampleNode (63 / 5) 0)\<lparr>isFixed := True\<rparr>] False)
              \<lparr>bounds := Some exampleBounds\<rparr>)))"
proof -
  let ?P = "(examplePath [exampleNode 0 0, exampleNode 15 0] False)\<lparr>bounds := Some exampleBounds\<rparr>"
  let ?P1 = "(examplePath [exampleNode 0 0, (exampleNode 15 0)\<lparr>isFixed := True\<rparr>] False)
              \<lparr>bounds := Some exampleBounds\<rparr>"
  let ?P' = "(examplePath [(exampleNode (63 / 5) 0)\<lparr>isFixed := True\<rparr>] False)
              \<lparr>bounds := Some exampleBounds\<rparr>"
  have a: "applyBounds exampleContains 1 ?P = Inr ?P1"
    by (simp add: applyBounds_def nth_opt_def exampleContains_def example_defs)
  have b: "iterate exampleHost ?P = Some (Inr ?P')"
    by (simp add: iterate_eval)
  have c: "iterate exampleHost ?P' = Some (Inr ?P')"
    by (simp add: iterate_eval)
  have d: "iterateMany [exampleHost, exampleHost] ?P = Some (Inr ?P')"
    by (simp add: b c)
  note t = fixed_flag_is_never_cleared [where p = ?P and p' = ?P' and hs = "[exampleHost, exampleHost]"]
  have "length (filter isFixed (nodes ?P)) \<le> length (filter isFixed (nodes ?P'))"
    using t d by blast
  then show ?thesis using a b d by simp
qed

end
